theory Spec2Isabelle
  imports Complex_Main "HOL-Library.Word"
begin

section \<open>JavaScript values used by the search handler\<close>

text \<open>
  A JavaScript string is a sequence of UTF-16 code units; \<open>length\<close>, \<open>substring\<close>,
  \<open>startsWith\<close> and \<open>trim\<close> all count and compare code units.
\<close>

type_synonym jschar = "16 word"
type_synonym jsstring = "jschar list"

text \<open>The ASCII literals of the source, as code units.\<close>

definition js_of :: "string \<Rightarrow> jsstring" where
  "js_of s = map (\<lambda>c. of_nat (of_char c)) s"

text \<open>
  \<open>String.prototype.trim\<close> removes WhiteSpace and LineTerminator code points from both
  ends; \<open>parseFloat\<close> skips the same set at the front.
\<close>

definition is_js_space :: "jschar \<Rightarrow> bool" where
  "is_js_space c \<longleftrightarrow>
     (0x0009 \<le> c \<and> c \<le> 0x000D) \<or> c = 0x0020 \<or> c = 0x00A0 \<or> c = 0x1680 \<or>
     (0x2000 \<le> c \<and> c \<le> 0x200A) \<or> c = 0x2028 \<or> c = 0x2029 \<or> c = 0x202F \<or>
     c = 0x205F \<or> c = 0x3000 \<or> c = 0xFEFF"

definition js_trim :: "jsstring \<Rightarrow> jsstring" where
  "js_trim s = rev (dropWhile is_js_space (rev (dropWhile is_js_space s)))"

text \<open>\<open>s.startsWith(p)\<close>.\<close>

definition starts_with :: "jsstring \<Rightarrow> jsstring \<Rightarrow> bool" where
  "starts_with s p \<longleftrightarrow> take (length p) s = p"

text \<open>\<open>s.substring(0, n)\<close> for a non-negative integer \<open>n\<close>.\<close>

definition substring0 :: "nat \<Rightarrow> jsstring \<Rightarrow> jsstring" where
  "substring0 n s = take n s"

text \<open>\<open>s.replace(/c/g, '')\<close> for a single literal character \<open>c\<close>: every occurrence goes.\<close>

primrec replace_all_empty :: "jschar \<Rightarrow> jsstring \<Rightarrow> jsstring" where
  "replace_all_empty c [] = []"
| "replace_all_empty c (x # xs) =
     (if x = c then replace_all_empty c xs else x # replace_all_empty c xs)"

text \<open>
  A JavaScript Number. \<open>NumberOf q\<close> stands for the Number value for the mathematical
  value \<open>q\<close>, that is the double nearest to \<open>q\<close> (ties to even); rounding is not
  carried out, the exact value is kept.
\<close>

datatype jsnum = NaN | PosInfinity | NegInfinity | NumberOf rat

text \<open>
  \<open>x > 0\<close> on Numbers. The Number value for \<open>q\<close> is a positive double exactly when
  \<open>q\<close> lies above half of the least subnormal \<open>2^-1074\<close>; the tie at \<open>2^-1075\<close> rounds
  to the even neighbour, which is zero.
\<close>

definition js_gt_zero :: "jsnum \<Rightarrow> bool" where
  "js_gt_zero x =
     (case x of NaN \<Rightarrow> False | PosInfinity \<Rightarrow> True | NegInfinity \<Rightarrow> False
      | NumberOf q \<Rightarrow> 1 / 2 ^ 1075 < q)"

subsection \<open>parseFloat\<close>

definition is_digit :: "jschar \<Rightarrow> bool" where
  "is_digit c \<longleftrightarrow> 0x30 \<le> c \<and> c \<le> 0x39"

definition digit_val :: "jschar \<Rightarrow> nat" where
  "digit_val c = unat c - 48"

text \<open>The value of a run of decimal digits, most significant first.\<close>

definition digits_val :: "jsstring \<Rightarrow> nat" where
  "digits_val ds = foldl (\<lambda>acc c. 10 * acc + digit_val c) 0 ds"

definition scale10 :: "rat \<Rightarrow> int \<Rightarrow> rat" where
  "scale10 q e = (if 0 \<le> e then q * 10 ^ nat e else q / 10 ^ nat (- e))"

text \<open>
  The exponent part \<open>e\<close> or \<open>E\<close>, an optional sign and at least one digit; anything else
  is not part of the number and counts as exponent zero.
\<close>

definition exponent_part :: "jsstring \<Rightarrow> int" where
  "exponent_part r =
     (case r of
        [] \<Rightarrow> 0
      | c # r1 \<Rightarrow>
          if c = 0x65 \<or> c = 0x45 then
            (case r1 of
               [] \<Rightarrow> 0
             | d # r2 \<Rightarrow>
                 if d = 0x2B then
                   (let ds = takeWhile is_digit r2 in if ds = [] then 0 else int (digits_val ds))
                 else if d = 0x2D then
                   (let ds = takeWhile is_digit r2 in if ds = [] then 0 else - int (digits_val ds))
                 else
                   (let ds = takeWhile is_digit r1 in if ds = [] then 0 else int (digits_val ds)))
          else 0)"

text \<open>
  The unsigned part: \<open>Infinity\<close>, or digits with an optional fraction and exponent, or a
  dot followed by digits. \<open>None\<close> when no prefix is a decimal literal.
\<close>

definition unsigned_literal :: "jsstring \<Rightarrow> jsnum option" where
  "unsigned_literal r =
     (if starts_with r (js_of ''Infinity'') then Some PosInfinity
      else
        let ip = takeWhile is_digit r;
            r1 = dropWhile is_digit r;
            has_dot = (r1 \<noteq> [] \<and> hd r1 = 0x2E);
            fp = (if has_dot then takeWhile is_digit (tl r1) else []);
            r2 = (if has_dot then dropWhile is_digit (tl r1) else r1)
        in if ip = [] \<and> fp = [] then None
           else Some (NumberOf (scale10
                  (of_nat (digits_val ip) + of_nat (digits_val fp) / 10 ^ length fp)
                  (exponent_part r2))))"

definition js_negate :: "jsnum \<Rightarrow> jsnum" where
  "js_negate x =
     (case x of NaN \<Rightarrow> NaN | PosInfinity \<Rightarrow> NegInfinity | NegInfinity \<Rightarrow> PosInfinity
      | NumberOf q \<Rightarrow> NumberOf (- q))"

text \<open>
  \<open>parseFloat(s)\<close>: leading white space is skipped, then the longest prefix that is a
  signed decimal literal is read; \<open>NaN\<close> when there is none.
\<close>

definition parseFloat :: "jsstring \<Rightarrow> jsnum" where
  "parseFloat s =
     (let t = dropWhile is_js_space s in
      case t of
        [] \<Rightarrow> NaN
      | c # r \<Rightarrow>
          if c = 0x2D then (case unsigned_literal r of None \<Rightarrow> NaN | Some x \<Rightarrow> js_negate x)
          else if c = 0x2B then (case unsigned_literal r of None \<Rightarrow> NaN | Some x \<Rightarrow> x)
          else (case unsigned_literal t of None \<Rightarrow> NaN | Some x \<Rightarrow> x))"

section \<open>The extraction pass of the /search handler\<close>

text \<open>An Error object as caught by \<open>catch (error)\<close>; the handler reads its message only.\<close>

datatype js_error = JsError (message: jsstring)

text \<open>
  An item node \<open>$(element)\<close> of the loaded document, seen through the queries the handler
  makes on it. Selectors and attribute names are the literals of the source. A query may
  throw; an absent attribute is \<open>undefined\<close>, here \<open>None\<close>. \<open>find\<close> looks at the
  descendants of the element only; \<open>own_classes\<close> is the class list of the element
  itself, which no query of the handler reads.
\<close>

record item_node =
  own_classes :: "string list"
  find_length :: "string \<Rightarrow> js_error + nat"
  find_text :: "string \<Rightarrow> js_error + jsstring"
  find_first_text :: "string \<Rightarrow> js_error + jsstring"
  find_attr :: "string \<Rightarrow> string \<Rightarrow> js_error + jsstring option"

record product =
  title :: jsstring
  price :: jsnum
  permalink :: jsstring
  thumbnail :: jsstring

text \<open>The four locals of the callback just before the validation \<open>if\<close>.\<close>

record fields =
  f_title :: jsstring
  f_price :: jsnum
  f_permalink :: "jsstring option"
  f_thumbnail :: "jsstring option"

text \<open>Sequencing of computations that may throw.\<close>

definition ebind :: "js_error + 'a \<Rightarrow> ('a \<Rightarrow> js_error + 'b) \<Rightarrow> js_error + 'b" where
  "ebind m f = (case m of Inl e \<Rightarrow> Inl e | Inr a \<Rightarrow> f a)"

text \<open>Truthiness of a string and of a string-or-undefined value.\<close>

definition truthy :: "jsstring option \<Rightarrow> bool" where
  "truthy v \<longleftrightarrow> (case v of None \<Rightarrow> False | Some s \<Rightarrow> s \<noteq> [])"

text \<open>
  \<open>find(s1).text().trim() || find(s2).text().trim() || ...\<close>: the first non-empty
  trimmed text; a later query is made only when the earlier ones were empty, and the
  last operand is the value when all are empty.
\<close>

fun title_chain :: "item_node \<Rightarrow> string list \<Rightarrow> js_error + jsstring" where
  "title_chain n [] = Inr []"
| "title_chain n [s] = ebind (find_text n s) (\<lambda>t. Inr (js_trim t))"
| "title_chain n (s # ss) =
     ebind (find_text n s) (\<lambda>t. if js_trim t \<noteq> [] then Inr (js_trim t) else title_chain n ss)"

text \<open>\<open>find(s1).attr(a1) || find(s2).attr(a2) || ...\<close>, with the same short circuit.\<close>

fun attr_chain :: "item_node \<Rightarrow> (string \<times> string) list \<Rightarrow> js_error + jsstring option" where
  "attr_chain n [] = Inr None"
| "attr_chain n [(s, a)] = find_attr n s a"
| "attr_chain n ((s, a) # ss) =
     ebind (find_attr n s a) (\<lambda>v. if truthy v then Inr v else attr_chain n ss)"

definition title_selectors :: "string list" where
  "title_selectors =
     [''a.poly-component__title'', ''.poly-component__title-wrapper a'',
      ''.ui-search-item__title'', ''h3 a'', ''h2 a'']"

definition permalink_locators :: "(string \<times> string) list" where
  "permalink_locators =
     [(''a.poly-component__title'', ''href''), (''.poly-component__title-wrapper a'', ''href''),
      (''a.ui-search-link'', ''href''), (''a[href*=\"/MLB\"]'', ''href'')]"

definition thumbnail_locators :: "(string \<times> string) list" where
  "thumbnail_locators =
     [(''img.ui-search-result-image__element'', ''data-src''),
      (''img.ui-search-result-image__element'', ''src''),
      (''img'', ''data-src''), (''img'', ''src'')]"

definition site_origin :: jsstring where
  "site_origin = js_of ''https://www.mercadolivre.com.br''"

text \<open>
  \<open>if (permalink && !permalink.startsWith('http')) permalink = `https://www.mercadolivre.com.br${permalink}`\<close>
\<close>

definition normalize_permalink :: "jsstring option \<Rightarrow> jsstring option" where
  "normalize_permalink p =
     (case p of
        None \<Rightarrow> None
      | Some s \<Rightarrow> if s \<noteq> [] \<and> \<not> starts_with s (js_of ''http'') then Some (site_origin @ s)
                  else Some s)"

text \<open>\<open>.text().replace(/\./g, '').replace(/,/g, '')\<close>\<close>

definition strip_grouping :: "jsstring \<Rightarrow> jsstring" where
  "strip_grouping t = replace_all_empty 0x2C (replace_all_empty 0x2E t)"

text \<open>\<open>.text() || '00'\<close>\<close>

definition cents_or_default :: "jsstring \<Rightarrow> jsstring" where
  "cents_or_default t = (if t \<noteq> [] then t else js_of ''00'')"

text \<open>
  \<open>let price = 0; if (priceFraction) price = parseFloat(`${priceFraction}.${priceCents}`)\<close>,
  on the two strings already prepared.
\<close>

definition compose_price :: "jsstring \<Rightarrow> jsstring \<Rightarrow> jsnum" where
  "compose_price priceFraction priceCents =
     (if priceFraction \<noteq> [] then parseFloat (priceFraction @ [0x2E] @ priceCents)
      else NumberOf 0)"

text \<open>The price from the texts of the two price sub-elements.\<close>

definition price_of_texts :: "jsstring \<Rightarrow> jsstring \<Rightarrow> jsnum" where
  "price_of_texts fraction_text cents_text =
     compose_price (strip_grouping fraction_text) (cents_or_default cents_text)"

text \<open>
  The body of the \<open>try\<close> block up to the validation: \<open>None\<close> is the early
  \<open>return\<close> for a sponsored item, \<open>Inl\<close> an exception thrown by a query.
\<close>

definition resolve_fields :: "item_node \<Rightarrow> js_error + fields option" where
  "resolve_fields n =
     ebind (find_length n ''.ui-search-item--ad'') (\<lambda>ads.
     if ads > 0 then Inr None
     else
       ebind (title_chain n title_selectors) (\<lambda>t.
       ebind (find_first_text n ''.andes-money-amount__fraction'') (\<lambda>ft.
       ebind (find_first_text n ''.andes-money-amount__cents'') (\<lambda>ct.
       ebind (attr_chain n permalink_locators) (\<lambda>p.
       ebind (attr_chain n thumbnail_locators) (\<lambda>th.
       Inr (Some \<lparr>f_title = t, f_price = price_of_texts ft ct,
                   f_permalink = normalize_permalink p, f_thumbnail = th\<rparr>)))))))"

text \<open>\<open>if (title && price > 0 && permalink && thumbnail)\<close>\<close>

definition complete :: "fields \<Rightarrow> bool" where
  "complete f \<longleftrightarrow>
     f_title f \<noteq> [] \<and> js_gt_zero (f_price f) \<and> truthy (f_permalink f) \<and> truthy (f_thumbnail f)"

definition make_product :: "fields \<Rightarrow> product" where
  "make_product f =
     \<lparr>title = substring0 200 (f_title f), price = f_price f,
      permalink = the (f_permalink f), thumbnail = the (f_thumbnail f)\<rparr>"

text \<open>What one run of the callback does: push a record, or one of the three logged skips.\<close>

datatype item_outcome =
  Pushed product | SkippedSponsored | SkippedIncomplete | SkippedError jsstring

definition item_callback :: "item_node \<Rightarrow> item_outcome" where
  "item_callback n =
     (case resolve_fields n of
        Inl e \<Rightarrow> SkippedError (message e)
      | Inr None \<Rightarrow> SkippedSponsored
      | Inr (Some f) \<Rightarrow> if complete f then Pushed (make_product f) else SkippedIncomplete)"

text \<open>
  \<open>$('.ui-search-layout__item').each(callback)\<close> over the matched nodes in document
  order, with the \<open>products\<close> array passed along. The callback never returns
  \<open>false\<close>, so \<open>each\<close> visits every node.
\<close>

fun each_item :: "product list \<Rightarrow> item_node list \<Rightarrow> product list" where
  "each_item products [] = products"
| "each_item products (n # ns) =
     (case item_callback n of
        Pushed r \<Rightarrow> each_item (products @ [r]) ns
      | _ \<Rightarrow> each_item products ns)"

definition extract_products :: "item_node list \<Rightarrow> product list" where
  "extract_products ns = each_item [] ns"

text \<open>The record the callback pushes for a node, if it pushes one.\<close>

definition emitted :: "item_node \<Rightarrow> product option" where
  "emitted n = (case item_callback n of Pushed r \<Rightarrow> Some r | _ \<Rightarrow> None)"

subsection \<open>Absolute links, as the specification speaks of them\<close>

text \<open>
  The specification's words "already-absolute link", read by RFC 3986: a reference is
  absolute when it begins with a scheme, a letter followed by letters, digits, \<open>+\<close>,
  \<open>-\<close> or \<open>.\<close>, and then a colon. This predicate is not in the source; the source tests
  \<open>startsWith('http')\<close> and the two are compared below.
\<close>

definition is_alpha :: "jschar \<Rightarrow> bool" where
  "is_alpha c \<longleftrightarrow> (0x41 \<le> c \<and> c \<le> 0x5A) \<or> (0x61 \<le> c \<and> c \<le> 0x7A)"

definition is_scheme_char :: "jschar \<Rightarrow> bool" where
  "is_scheme_char c \<longleftrightarrow> is_alpha c \<or> is_digit c \<or> c = 0x2B \<or> c = 0x2D \<or> c = 0x2E"

definition absolute_url_spec :: "jsstring \<Rightarrow> bool" where
  "absolute_url_spec s =
     (case s of
        [] \<Rightarrow> False
      | c # r \<Rightarrow> is_alpha c \<and> (case dropWhile is_scheme_char r of [] \<Rightarrow> False | d # _ \<Rightarrow> d = 0x3A))"

subsection \<open>The sponsored marker, as the specification speaks of it\<close>

text \<open>
  The specification's words "the node carries a sponsored/ad marker": the class is on the
  element itself or on one of its descendants. This predicate is not in the source; the
  source tests \<open>find('.ui-search-item--ad').length > 0\<close> and the two are compared below.
\<close>

definition carries_ad_marker :: "item_node \<Rightarrow> bool" where
  "carries_ad_marker n \<longleftrightarrow>
     ''ui-search-item--ad'' \<in> set (own_classes n) \<or>
     (case find_length n ''.ui-search-item--ad'' of Inl e \<Rightarrow> False | Inr k \<Rightarrow> 0 < k)"

subsection \<open>Example item nodes\<close>

text \<open>
  A node with \<open>ads\<close> sponsored markers whose first title locator, price sub-elements,
  first permalink locator and generic image \<open>src\<close> answer as given; every other query
  finds nothing.
\<close>

definition sample_node ::
  "nat \<Rightarrow> jsstring \<Rightarrow> jsstring \<Rightarrow> jsstring \<Rightarrow> jsstring option \<Rightarrow> jsstring option \<Rightarrow> item_node" where
  "sample_node ads t fr ce h img =
     \<lparr>own_classes = [''ui-search-layout__item''],
      find_length = (\<lambda>s. Inr (if s = ''.ui-search-item--ad'' then ads else 0)),
      find_text = (\<lambda>s. Inr (if s = ''a.poly-component__title'' then t else [])),
      find_first_text = (\<lambda>s. Inr (if s = ''.andes-money-amount__fraction'' then fr
                                   else if s = ''.andes-money-amount__cents'' then ce else [])),
      find_attr = (\<lambda>s a. Inr (if s = ''a.poly-component__title'' \<and> a = ''href'' then h
                               else if s = ''img'' \<and> a = ''src'' then img else None))\<rparr>"

definition phone_node :: item_node where
  "phone_node = sample_node 0 (js_of '' Phone '') (js_of ''1.234'') (js_of ''56'')
     (Some (js_of ''/item/123'')) (Some (js_of ''https://img/1.jpg''))"

definition case_node :: item_node where
  "case_node = sample_node 0 (js_of ''Case'') (js_of ''89'') []
     (Some (js_of ''https://produto.mercadolivre.com.br/MLB-1'')) (Some (js_of ''https://img/2.jpg''))"

definition unpriced_node :: item_node where
  "unpriced_node = sample_node 0 (js_of ''Cable'') [] (js_of ''90'')
     (Some (js_of ''/item/7'')) (Some (js_of ''https://img/3.jpg''))"

text \<open>A complete node whose title has 250 code units.\<close>

definition long_title_node :: item_node where
  "long_title_node = sample_node 0 (replicate 250 0x41) (js_of ''7'') (js_of ''50'')
     (Some (js_of ''/item/9'')) (Some (js_of ''https://img/9.jpg''))"

text \<open>
  A complete node whose own element carries the sponsored class, with no descendant that
  carries it.
\<close>

definition self_marked_node :: item_node where
  "self_marked_node =
     phone_node\<lparr>own_classes := [''ui-search-layout__item'', ''ui-search-item--ad'']\<rparr>"

text \<open>A node with \<open>ads\<close> sponsored markers on which every other query throws.\<close>

definition throwing_node :: "nat \<Rightarrow> item_node" where
  "throwing_node ads =
     \<lparr>own_classes = [''ui-search-layout__item''],
      find_length = (\<lambda>s. Inr (if s = ''.ui-search-item--ad'' then ads else 0)),
      find_text = (\<lambda>s. Inl (JsError (js_of ''boom''))),
      find_first_text = (\<lambda>s. Inl (JsError (js_of ''boom''))),
      find_attr = (\<lambda>s a. Inl (JsError (js_of ''boom'')))\<rparr>"

section \<open>The browser session\<close>

text \<open>
  The calls the server makes on Puppeteer, on the page and on the process, each with
  what it was called with. The log pairs a call with whether it resolved (\<open>True\<close>) or
  rejected.
\<close>

datatype event =
    Launch | NewPage | SetUserAgent | SetViewport | Goto jsstring
  | Sleep nat
  | QuerySelector string | IsVisible string | ElementClick string
  | EvaluateTextClick jsstring | ButtonClick nat
  | WaitForSelector string nat | EvaluateHasProducts
  | Content | WriteDebugFile | BrowserClose

type_synonym 'w session = "'w \<times> (event \<times> bool) list"

text \<open>A button of the live document as the in-page callback sees it.\<close>

record button =
  button_id :: nat
  text_content :: jsstring
  offset_parent :: bool

text \<open>
  The world outside the server: the browser, the page it shows and the libraries, over an
  arbitrary state \<open>'w\<close>. Every call takes the state and returns the next one; a call that
  can reject returns \<open>Inl\<close> of the error. \<open>sleep\<close> is the passing of the given number
  of milliseconds. \<open>document_buttons\<close> and \<open>document_item_count\<close> are what
  \<open>document.querySelectorAll\<close> yields inside \<open>page.evaluate\<close>, \<open>cheerio_items\<close> is
  \<open>cheerio.load(content)\<close> followed by \<open>$('.ui-search-layout__item')\<close>, and
  \<open>to_lower_case\<close> and \<open>encode_uri_component\<close> are the built-ins of those names.
\<close>

record 'w browser_api =
  launch :: "'w \<Rightarrow> (js_error + unit) \<times> 'w"
  new_page :: "'w \<Rightarrow> (js_error + unit) \<times> 'w"
  set_user_agent :: "'w \<Rightarrow> (js_error + unit) \<times> 'w"
  set_viewport :: "'w \<Rightarrow> (js_error + unit) \<times> 'w"
  goto :: "jsstring \<Rightarrow> 'w \<Rightarrow> (js_error + unit) \<times> 'w"
  sleep :: "nat \<Rightarrow> 'w \<Rightarrow> 'w"
  query_selector :: "string \<Rightarrow> 'w \<Rightarrow> (js_error + nat option) \<times> 'w"
  is_visible :: "nat \<Rightarrow> 'w \<Rightarrow> (js_error + bool) \<times> 'w"
  click :: "nat \<Rightarrow> 'w \<Rightarrow> (js_error + unit) \<times> 'w"
  begin_evaluate :: "'w \<Rightarrow> (js_error + unit) \<times> 'w"
  document_buttons :: "'w \<Rightarrow> button list"
  button_click :: "nat \<Rightarrow> 'w \<Rightarrow> 'w"
  document_item_count :: "'w \<Rightarrow> nat"
  wait_for_selector :: "string \<Rightarrow> nat \<Rightarrow> 'w \<Rightarrow> (js_error + unit) \<times> 'w"
  content :: "'w \<Rightarrow> (js_error + jsstring) \<times> 'w"
  write_debug_file :: "jsstring \<Rightarrow> 'w \<Rightarrow> (js_error + unit) \<times> 'w"
  close :: "'w \<Rightarrow> (js_error + unit) \<times> 'w"
  cheerio_items :: "jsstring \<Rightarrow> item_node list"
  to_lower_case :: "jsstring \<Rightarrow> jsstring"
  encode_uri_component :: "jsstring \<Rightarrow> jsstring"

text \<open>\<open>await\<close> of one call: the call is made on the current state and logged.\<close>

definition perform ::
  "event \<Rightarrow> ('w \<Rightarrow> (js_error + 'a) \<times> 'w) \<Rightarrow> 'w session \<Rightarrow> (js_error + 'a) \<times> 'w session" where
  "perform ev call s =
     (case call (fst s) of
        (Inl e, w) \<Rightarrow> (Inl e, (w, snd s @ [(ev, False)]))
      | (Inr a, w) \<Rightarrow> (Inr a, (w, snd s @ [(ev, True)])))"

text \<open>\<open>await new Promise(resolve => setTimeout(resolve, ms))\<close>\<close>

definition pause :: "'w browser_api \<Rightarrow> nat \<Rightarrow> 'w session \<Rightarrow> 'w session" where
  "pause api ms s = (sleep api ms (fst s), snd s @ [(Sleep ms, True)])"

text \<open>Sequencing of awaited steps: the first rejection ends the sequence.\<close>

definition sbind ::
  "('s \<Rightarrow> (js_error + 'a) \<times> 's) \<Rightarrow> ('a \<Rightarrow> 's \<Rightarrow> (js_error + 'b) \<times> 's) \<Rightarrow> 's \<Rightarrow> (js_error + 'b) \<times> 's" where
  "sbind m f s = (case m s of (Inl e, s') \<Rightarrow> (Inl e, s') | (Inr a, s') \<Rightarrow> f a s')"

subsection \<open>handlePopupsAndOverlays\<close>

definition popupSelectors :: "string list" where
  "popupSelectors =
     [''button[data-testid=\"action:understood-button\"]'',
      ''button[data-testid=\"cookie-consent-banner-opt-out\"]'',
      ''.cookie-consent-banner-opt-out'',
      ''button[data-testid=\"modal-close-button\"]'',
      ''.andes-modal__close'',
      ''button[aria-label=\"Cerrar\"]'',
      ''button[aria-label=\"Close\"]'',
      ''.onboarding-cp-wrapper button'',
      ''button[data-testid=\"onboarding-cp-understand\"]'',
      ''button[class*=\"close\"]'',
      ''[data-testid*=\"close\"]'',
      ''.ui-modal-close'',
      ''button[data-testid=\"action:modal-close\"]'',
      ''.shipping-location button'',
      ''button:contains(\"Entendi\")'',
      ''button:contains(\"OK\")'',
      ''button:contains(\"Fechar\")'',
      ''button:contains(\"Cerrar\")'',
      ''.andes-modal-overlay'',
      ''.ui-modal-overlay'']"

text \<open>
  The body of the first loop for one selector, with the counter \<open>popupsFound\<close>. An error
  of \<open>page.$\<close>, \<open>isVisible\<close> or \<open>click\<close> is caught and the loop goes on; the counter
  grows only after \<open>click\<close> has resolved.
\<close>

definition dismiss_selector ::
  "'w browser_api \<Rightarrow> string \<Rightarrow> nat \<Rightarrow> 'w session \<Rightarrow> nat \<times> 'w session" where
  "dismiss_selector api selector popupsFound s =
     (case perform (QuerySelector selector) (query_selector api selector) (pause api 500 s) of
        (Inl e, s1) \<Rightarrow> (popupsFound, s1)
      | (Inr None, s1) \<Rightarrow> (popupsFound, s1)
      | (Inr (Some element), s1) \<Rightarrow>
          (case perform (IsVisible selector) (is_visible api element) s1 of
             (Inl e, s2) \<Rightarrow> (popupsFound, s2)
           | (Inr False, s2) \<Rightarrow> (popupsFound, s2)
           | (Inr True, s2) \<Rightarrow>
               (case perform (ElementClick selector) (click api element) s2 of
                  (Inl e, s3) \<Rightarrow> (popupsFound, s3)
                | (Inr _, s3) \<Rightarrow> (popupsFound + 1, pause api 1000 s3))))"

fun dismiss_selectors ::
  "'w browser_api \<Rightarrow> string list \<Rightarrow> nat \<Rightarrow> 'w session \<Rightarrow> nat \<times> 'w session" where
  "dismiss_selectors api [] popupsFound s = (popupsFound, s)"
| "dismiss_selectors api (selector # rest) popupsFound s =
     (case dismiss_selector api selector popupsFound s of
        (popupsFound', s') \<Rightarrow> dismiss_selectors api rest popupsFound' s')"

definition textBasedSelectors :: "(string \<times> string) list" where
  "textBasedSelectors =
     [(''Entendi'', ''Understood button''), (''OK'', ''OK button''), (''Fechar'', ''Close button''),
      (''Aceitar'', ''Accept button''), (''Continuar'', ''Continue button'')]"

text \<open>\<open>s.includes(p)\<close>\<close>

fun js_includes :: "jsstring \<Rightarrow> jsstring \<Rightarrow> bool" where
  "js_includes [] p = (p = [])"
| "js_includes (x # xs) p = (starts_with (x # xs) p \<or> js_includes xs p)"

text \<open>
  \<open>page.evaluate(callback, text)\<close>: inside the page the callback takes the first button
  whose trimmed, lower-cased text includes the lower-cased label, clicks it when its
  \<open>offsetParent\<close> is not null, and returns whether it clicked.
\<close>

definition evaluate_text_click ::
  "'w browser_api \<Rightarrow> jsstring \<Rightarrow> 'w session \<Rightarrow> (js_error + bool) \<times> 'w session" where
  "evaluate_text_click api buttonText s =
     (case perform (EvaluateTextClick buttonText) (begin_evaluate api) s of
        (Inl e, s1) \<Rightarrow> (Inl e, s1)
      | (Inr _, s1) \<Rightarrow>
          (case find (\<lambda>btn. js_includes (to_lower_case api (js_trim (text_content btn)))
                                         (to_lower_case api buttonText))
                     (document_buttons api (fst s1)) of
             None \<Rightarrow> (Inr False, s1)
           | Some b \<Rightarrow>
               if offset_parent b
               then (Inr True, (button_click api (button_id b) (fst s1),
                                snd s1 @ [(ButtonClick (button_id b), True)]))
               else (Inr False, s1)))"

text \<open>
  The second loop: the value of \<open>page.evaluate\<close> is dropped; when it rejects, the pause
  after it is skipped.
\<close>

fun click_texts :: "'w browser_api \<Rightarrow> (string \<times> string) list \<Rightarrow> 'w session \<Rightarrow> 'w session" where
  "click_texts api [] s = s"
| "click_texts api ((text, description) # rest) s =
     (case evaluate_text_click api (js_of text) s of
        (Inl e, s1) \<Rightarrow> click_texts api rest s1
      | (Inr _, s1) \<Rightarrow> click_texts api rest (pause api 500 s1))"

definition handlePopupsAndOverlays :: "'w browser_api \<Rightarrow> 'w session \<Rightarrow> nat \<times> 'w session" where
  "handlePopupsAndOverlays api s =
     (case dismiss_selectors api popupSelectors 0 s of
        (popupsFound, s1) \<Rightarrow> (popupsFound, click_texts api textBasedSelectors s1))"

subsection \<open>waitForPageReady\<close>

definition resultsContainerSelector :: string where
  "resultsContainerSelector = ''ol.ui-search-layout''"

definition evaluate_has_products :: "'w browser_api \<Rightarrow> 'w \<Rightarrow> (js_error + bool) \<times> 'w" where
  "evaluate_has_products api w =
     (case begin_evaluate api w of
        (Inl e, w1) \<Rightarrow> (Inl e, w1)
      | (Inr _, w1) \<Rightarrow> (Inr (0 < document_item_count api w1), w1))"

text \<open>The \<open>catch\<close> of one attempt: a 3000 ms pause unless it was the last attempt.\<close>

definition after_failure :: "'w browser_api \<Rightarrow> nat \<Rightarrow> nat \<Rightarrow> 'w session \<Rightarrow> 'w session" where
  "after_failure api attempt maxAttempts s = (if attempt < maxAttempts then pause api 3000 s else s)"

text \<open>
  One run of the loop body. \<open>True\<close> is \<open>return true\<close>; \<open>False\<close> is falling through
  to the next attempt, after the 2000 ms pause when no product was there or after the
  \<open>catch\<close> when a wait or the evaluation rejected.
\<close>

definition probe_attempt ::
  "'w browser_api \<Rightarrow> nat \<Rightarrow> nat \<Rightarrow> 'w session \<Rightarrow> bool \<times> 'w session" where
  "probe_attempt api attempt maxAttempts s =
     (case perform (WaitForSelector resultsContainerSelector 30000)
                   (wait_for_selector api resultsContainerSelector 30000) s of
        (Inl e, s1) \<Rightarrow> (False, after_failure api attempt maxAttempts s1)
      | (Inr _, s1) \<Rightarrow>
          (case perform (WaitForSelector ''.ui-search-layout__item'' 10000)
                        (wait_for_selector api ''.ui-search-layout__item'' 10000) s1 of
             (Inl e, s2) \<Rightarrow> (False, after_failure api attempt maxAttempts s2)
           | (Inr _, s2) \<Rightarrow>
               (case perform EvaluateHasProducts (evaluate_has_products api) s2 of
                  (Inl e, s3) \<Rightarrow> (False, after_failure api attempt maxAttempts s3)
                | (Inr True, s3) \<Rightarrow> (True, s3)
                | (Inr False, s3) \<Rightarrow> (False, pause api 2000 s3))))"

definition probe_failure :: js_error where
  "probe_failure = JsError (js_of ''Failed to load search results after multiple attempts'')"

text \<open>\<open>for (let attempt = ...; attempt <= maxAttempts; attempt++)\<close> and the \<open>throw\<close> after it.\<close>

function probe_from ::
  "'w browser_api \<Rightarrow> nat \<Rightarrow> nat \<Rightarrow> 'w session \<Rightarrow> (js_error + bool) \<times> 'w session" where
  "probe_from api attempt maxAttempts s =
     (if attempt \<le> maxAttempts then
        (case probe_attempt api attempt maxAttempts s of
           (True, s') \<Rightarrow> (Inr True, s')
         | (False, s') \<Rightarrow> probe_from api (attempt + 1) maxAttempts s')
      else (Inl probe_failure, s))"
  by pat_completeness auto
termination
  by (relation "measure (\<lambda>(api, attempt, maxAttempts, s). Suc maxAttempts - attempt)") auto

declare probe_from.simps [simp del]

definition waitForPageReady ::
  "'w browser_api \<Rightarrow> nat \<Rightarrow> 'w session \<Rightarrow> (js_error + bool) \<times> 'w session" where
  "waitForPageReady api maxAttempts s = probe_from api 1 maxAttempts s"

text \<open>The default of the parameter \<open>maxAttempts\<close>.\<close>

definition default_maxAttempts :: nat where
  "default_maxAttempts = 3"

subsection \<open>The GET /search handler\<close>

datatype response_body =
    ErrorOnly jsstring
  | ErrorWithDetails jsstring jsstring
  | ProductArray "product list"

record response =
  status :: nat
  body :: response_body

text \<open>
  Steps 5 to 7, from \<open>page.content()\<close> to the array that is sent: the value is the
  argument of \<open>res.json\<close>. With no product and outside production the markup is written
  to a debug file first.
\<close>

definition extract_stage ::
  "'w browser_api \<Rightarrow> jsstring option \<Rightarrow> 'w session \<Rightarrow> (js_error + product list) \<times> 'w session" where
  "extract_stage api node_env =
     sbind (perform Content (content api)) (\<lambda>markup s.
       let products = extract_products (cheerio_items api markup) in
       if products \<noteq> [] then (Inr products, s)
       else if node_env \<noteq> Some (js_of ''production'')
         then sbind (perform WriteDebugFile (write_debug_file api markup)) (\<lambda>_ s'. (Inr [], s')) s
         else (Inr [], s))"

text \<open>Step 4 and what follows it: the probe with the default number of attempts, the
  viewing pause outside production, then the extraction.\<close>

definition ready_then_extract ::
  "'w browser_api \<Rightarrow> jsstring option \<Rightarrow> 'w session \<Rightarrow> (js_error + product list) \<times> 'w session" where
  "ready_then_extract api node_env =
     sbind (waitForPageReady api default_maxAttempts) (\<lambda>_ s.
       extract_stage api node_env
         (if node_env \<noteq> Some (js_of ''production'') then pause api 3000 s else s))"

definition search_url :: "'w browser_api \<Rightarrow> jsstring \<Rightarrow> jsstring" where
  "search_url api searchQuery =
     js_of ''https://lista.mercadolivre.com.br/'' @ encode_uri_component api searchQuery"

text \<open>The \<open>try\<close> block after the browser has been launched.\<close>

definition with_browser ::
  "'w browser_api \<Rightarrow> jsstring option \<Rightarrow> jsstring \<Rightarrow> 'w session \<Rightarrow> (js_error + product list) \<times> 'w session" where
  "with_browser api node_env searchQuery =
     sbind (perform NewPage (new_page api)) (\<lambda>_.
     sbind (perform SetUserAgent (set_user_agent api)) (\<lambda>_.
     sbind (perform SetViewport (set_viewport api)) (\<lambda>_.
     sbind (perform (Goto (search_url api searchQuery)) (goto api (search_url api searchQuery))) (\<lambda>_ s.
       ready_then_extract api node_env
         (snd (handlePopupsAndOverlays api
            (pause api 2000 (snd (handlePopupsAndOverlays api s)))))))))"

text \<open>
  The whole \<open>try\<close> block. The flag says whether \<open>browser\<close> has been assigned, that is
  whether \<open>puppeteer.launch\<close> resolved.
\<close>

definition search_pipeline ::
  "'w browser_api \<Rightarrow> jsstring option \<Rightarrow> jsstring \<Rightarrow> 'w session
     \<Rightarrow> (js_error + product list) \<times> bool \<times> 'w session" where
  "search_pipeline api node_env searchQuery s =
     (case perform Launch (launch api) s of
        (Inl e, s1) \<Rightarrow> (Inl e, False, s1)
      | (Inr _, s1) \<Rightarrow>
          (case with_browser api node_env searchQuery s1 of (r, s2) \<Rightarrow> (r, True, s2)))"

text \<open>
  The handler: \<open>query\<close> is \<open>req.query.q\<close>, a string, or \<open>None\<close> when the parameter is
  missing;
  \<open>node_env\<close> is \<open>process.env.NODE_ENV\<close>. The response is the one passed to
  \<open>res.status(...).json(...)\<close>; the \<open>finally\<close> block closes the browser when there is
  one, after the response has been decided.
\<close>

definition search_handler ::
  "'w browser_api \<Rightarrow> jsstring option \<Rightarrow> jsstring option \<Rightarrow> 'w session \<Rightarrow> response \<times> 'w session" where
  "search_handler api node_env query s =
     (if \<not> truthy query then
        (\<lparr>status = 400, body = ErrorOnly (js_of ''Search query parameter \"q\" is required.'')\<rparr>, s)
      else
        (case search_pipeline api node_env (the query) s of
           (r, browser, s1) \<Rightarrow>
             ((case r of
                 Inr products \<Rightarrow> \<lparr>status = 200, body = ProductArray products\<rparr>
               | Inl error \<Rightarrow>
                   \<lparr>status = 500,
                    body = ErrorWithDetails (js_of ''An internal server error occurred during scraping.'')
                      (if node_env = Some (js_of ''development'') then message error
                       else js_of ''Check server logs'')\<rparr>),
              (if browser then snd (perform BrowserClose (close api) s1) else s1))))"

subsection \<open>Reading the log\<close>

definition clicked_elements :: "(event \<times> bool) list \<Rightarrow> string list" where
  "clicked_elements entries =
     List.map_filter (\<lambda>e. case e of (ElementClick sel, True) \<Rightarrow> Some sel | _ \<Rightarrow> None) entries"



definition queried_selectors :: "(event \<times> bool) list \<Rightarrow> string list" where
  "queried_selectors entries =
     List.map_filter (\<lambda>e. case e of (QuerySelector sel, _) \<Rightarrow> Some sel | _ \<Rightarrow> None) entries"

definition evaluated_texts :: "(event \<times> bool) list \<Rightarrow> jsstring list" where
  "evaluated_texts entries =
     List.map_filter (\<lambda>e. case e of (EvaluateTextClick t, _) \<Rightarrow> Some t | _ \<Rightarrow> None) entries"

definition selector_waits :: "(event \<times> bool) list \<Rightarrow> (string \<times> nat) list" where
  "selector_waits entries =
     List.map_filter (\<lambda>e. case e of (WaitForSelector sel t, _) \<Rightarrow> Some (sel, t) | _ \<Rightarrow> None) entries"

definition pauses :: "(event \<times> bool) list \<Rightarrow> nat list" where
  "pauses entries = List.map_filter (\<lambda>e. case e of (Sleep ms, _) \<Rightarrow> Some ms | _ \<Rightarrow> None) entries"

text \<open>The number of attempts in a log of the probe: each begins with the container wait.\<close>

definition attempts_made :: "(event \<times> bool) list \<Rightarrow> nat" where
  "attempts_made entries =
     length (filter (\<lambda>p. fst p = resultsContainerSelector) (selector_waits entries))"

text \<open>What one attempt may add to the log.\<close>

definition probe_events :: "(event \<times> bool) list \<Rightarrow> bool" where
  "probe_events new \<longleftrightarrow>
     set (selector_waits new) \<subseteq> {(resultsContainerSelector, 30000), (''.ui-search-layout__item'', 10000)} \<and>
     set (pauses new) \<subseteq> {2000, 3000} \<and>
     (\<forall>b. (Content, b) \<notin> set new)"

text \<open>The state in which attempt \<open>attempt + j\<close> starts when the \<open>j\<close> attempts from
  \<open>attempt\<close> on did not return.\<close>

fun state_after :: "'w browser_api \<Rightarrow> nat \<Rightarrow> nat \<Rightarrow> nat \<Rightarrow> 'w session \<Rightarrow> 'w session" where
  "state_after api attempt maxAttempts 0 s = s"
| "state_after api attempt maxAttempts (Suc j) s =
     state_after api (Suc attempt) maxAttempts j (snd (probe_attempt api attempt maxAttempts s))"

subsection \<open>Visible blocking elements, as the specification speaks of them\<close>



subsection \<open>The readiness probe, as the specification speaks of it\<close>

text \<open>
  The definitions of this subsection are not in the source: they say, on the page alone,
  what the specification's words "container wait", "item wait", "item count" and
  "inter-attempt delay" mean, and the probe of the source is compared with them below.

  What the page shows to one attempt: the container does not appear within 30 s, or no
  item appears within 10 s, or the document cannot be read, or the document is read and
  holds so many items.
\<close>

datatype observation = ContainerTimeout | ItemTimeout | EvaluateFailed | Counted nat

definition observe :: "'w browser_api \<Rightarrow> 'w \<Rightarrow> observation \<times> 'w" where
  "observe api w =
     (case wait_for_selector api ''ol.ui-search-layout'' 30000 w of
        (Inl e, w1) \<Rightarrow> (ContainerTimeout, w1)
      | (Inr _, w1) \<Rightarrow>
          (case wait_for_selector api ''.ui-search-layout__item'' 10000 w1 of
             (Inl e, w2) \<Rightarrow> (ItemTimeout, w2)
           | (Inr _, w2) \<Rightarrow>
               (case begin_evaluate api w2 of
                  (Inl e, w3) \<Rightarrow> (EvaluateFailed, w3)
                | (Inr _, w3) \<Rightarrow> (Counted (document_item_count api w3), w3))))"

text \<open>Items are found when the document is read and its item count is not zero.\<close>

definition items_seen :: "observation \<Rightarrow> bool" where
  "items_seen obs = (case obs of Counted c \<Rightarrow> 0 < c | _ \<Rightarrow> False)"

text \<open>The calls one attempt makes, by what the page shows to it.\<close>

definition attempt_calls :: "observation \<Rightarrow> (event \<times> bool) list" where
  "attempt_calls obs =
     (case obs of
        ContainerTimeout \<Rightarrow> [(WaitForSelector ''ol.ui-search-layout'' 30000, False)]
      | ItemTimeout \<Rightarrow>
          [(WaitForSelector ''ol.ui-search-layout'' 30000, True),
           (WaitForSelector ''.ui-search-layout__item'' 10000, False)]
      | EvaluateFailed \<Rightarrow>
          [(WaitForSelector ''ol.ui-search-layout'' 30000, True),
           (WaitForSelector ''.ui-search-layout__item'' 10000, True),
           (EvaluateHasProducts, False)]
      | Counted c \<Rightarrow>
          [(WaitForSelector ''ol.ui-search-layout'' 30000, True),
           (WaitForSelector ''.ui-search-layout__item'' 10000, True),
           (EvaluateHasProducts, True)])"

text \<open>
  The delay after an attempt: none when items were found, 2000 ms when the count was
  zero, 3000 ms when a wait or the reading failed and another attempt follows.
\<close>

definition retry_delay :: "observation \<Rightarrow> nat \<Rightarrow> nat \<Rightarrow> nat option" where
  "retry_delay obs attempt maxAttempts =
     (case obs of
        Counted c \<Rightarrow> if 0 < c then None else Some 2000
      | _ \<Rightarrow> if attempt < maxAttempts then Some 3000 else None)"

text \<open>
  The page at the start of attempt \<open>attempt + j\<close> when none of the \<open>j\<close> attempts from
  \<open>attempt\<close> on found items: each of them observed the page and was followed by its
  delay.
\<close>

fun page_after :: "'w browser_api \<Rightarrow> nat \<Rightarrow> nat \<Rightarrow> nat \<Rightarrow> 'w \<Rightarrow> 'w" where
  "page_after api attempt maxAttempts 0 w = w"
| "page_after api attempt maxAttempts (Suc j) w =
     page_after api (Suc attempt) maxAttempts j
       (case observe api w of
          (obs, w1) \<Rightarrow>
            (case retry_delay obs attempt maxAttempts of None \<Rightarrow> w1 | Some d \<Rightarrow> sleep api d w1))"

text \<open>Whether the page shows items to attempt \<open>k\<close>, counted from 1, of a probe started on \<open>w\<close>.\<close>

definition items_found :: "'w browser_api \<Rightarrow> nat \<Rightarrow> nat \<Rightarrow> 'w \<Rightarrow> bool" where
  "items_found api maxAttempts k w =
     items_seen (fst (observe api (page_after api 1 maxAttempts (k - 1) w)))"

text \<open>
  Every attempt but the first comes directly after a pause of 2000 or 3000 ms: in the
  log, a container wait that is not the first entry follows such a pause.
\<close>

definition is_container_wait :: "event \<times> bool \<Rightarrow> bool" where
  "is_container_wait e =
     (case fst e of WaitForSelector sel t \<Rightarrow> sel = ''ol.ui-search-layout'' | _ \<Rightarrow> False)"

definition is_retry_pause :: "event \<times> bool \<Rightarrow> bool" where
  "is_retry_pause e \<longleftrightarrow> fst e = Sleep 2000 \<or> fst e = Sleep 3000"

fun paused_retries :: "(event \<times> bool) list \<Rightarrow> bool" where
  "paused_retries [] = True"
| "paused_retries [x] = True"
| "paused_retries (x # y # rest) =
     ((is_container_wait y \<longrightarrow> is_retry_pause x) \<and> paused_retries (y # rest))"

subsection \<open>A simulated browser\<close>

text \<open>
  A small world for examples: overlays as pairs of a selector and an element handle, the
  buttons of the document, the item counts the document shows at successive waits for an
  item, the markup of the page, and an error for \<open>puppeteer.launch\<close> if it is to fail.
\<close>

record sim =
  overlays :: "(string \<times> nat) list"
  sim_buttons :: "button list"
  item_counts :: "nat list"
  markup :: jsstring
  launch_error :: "jsstring option"

definition ascii_lower :: "jschar \<Rightarrow> jschar" where
  "ascii_lower c = (if 0x41 \<le> c \<and> c \<le> 0x5A then c + 0x20 else c)"

definition sim_wait :: "string \<Rightarrow> nat \<Rightarrow> sim \<Rightarrow> (js_error + unit) \<times> sim" where
  "sim_wait sel timeout w =
     (if sel = ''.ui-search-layout__item'' then
        (case item_counts w of
           [] \<Rightarrow> (Inl (JsError (js_of ''Waiting for selector failed'')), w)
         | c # cs \<Rightarrow>
             if 0 < c then (Inr (), w)
             else (Inl (JsError (js_of ''Waiting for selector failed'')), w\<lparr>item_counts := cs\<rparr>))
      else (Inr (), w))"

definition sim_api :: "sim browser_api" where
  "sim_api =
     \<lparr>launch = (\<lambda>w. case launch_error w of None \<Rightarrow> (Inr (), w) | Some m \<Rightarrow> (Inl (JsError m), w)),
      new_page = (\<lambda>w. (Inr (), w)),
      set_user_agent = (\<lambda>w. (Inr (), w)),
      set_viewport = (\<lambda>w. (Inr (), w)),
      goto = (\<lambda>url w. (Inr (), w)),
      sleep = (\<lambda>ms w. w),
      query_selector = (\<lambda>sel w. (Inr (map_of (overlays w) sel), w)),
      is_visible = (\<lambda>h w. (Inr (h \<in> snd ` set (overlays w)), w)),
      click = (\<lambda>h w. (Inr (), w\<lparr>overlays := filter (\<lambda>p. snd p \<noteq> h) (overlays w)\<rparr>)),
      begin_evaluate = (\<lambda>w. (Inr (), w)),
      document_buttons = sim_buttons,
      button_click = (\<lambda>i w. w\<lparr>sim_buttons :=
         map (\<lambda>b. if button_id b = i then b\<lparr>offset_parent := False\<rparr> else b) (sim_buttons w)\<rparr>),
      document_item_count = (\<lambda>w. case item_counts w of [] \<Rightarrow> 0 | c # _ \<Rightarrow> c),
      wait_for_selector = sim_wait,
      content = (\<lambda>w. (Inr (markup w), w)),
      write_debug_file = (\<lambda>m w. (Inr (), w)),
      close = (\<lambda>w. (Inr (), w)),
      cheerio_items = (\<lambda>m. if m = js_of ''listing'' then [phone_node, throwing_node 1, case_node] else []),
      to_lower_case = map ascii_lower,
      encode_uri_component = (\<lambda>q. q)\<rparr>"

text \<open>A page with two visible modal close elements and two visible consent buttons.\<close>

definition crowded_page :: sim where
  "crowded_page =
     \<lparr>overlays = [(''.andes-modal__close'', 4), (''.andes-modal__close'', 5)],
      sim_buttons =
        [\<lparr>button_id = 7, text_content = js_of '' Aceitar '', offset_parent = True\<rparr>,
         \<lparr>button_id = 8, text_content = js_of ''Aceitar tudo'', offset_parent = True\<rparr>],
      item_counts = [2], markup = js_of ''listing'', launch_error = None\<rparr>"

text \<open>A page with one modal close button and no text button.\<close>

definition modal_page :: sim where
  "modal_page =
     \<lparr>overlays = [(''.andes-modal__close'', 4)], sim_buttons = [],
      item_counts = [0, 3], markup = js_of ''listing'', launch_error = None\<rparr>"

text \<open>A page on which no item ever appears.\<close>

definition empty_page :: sim where
  "empty_page =
     \<lparr>overlays = [], sim_buttons = [], item_counts = [], markup = [], launch_error = None\<rparr>"

text \<open>A machine on which the browser does not start.\<close>

definition no_browser :: sim where
  "no_browser =
     \<lparr>overlays = [], sim_buttons = [], item_counts = [], markup = [],
      launch_error = Some (js_of ''Failed to launch the browser process'')\<rparr>"

section \<open>Properties of the extraction pass\<close>

subsection \<open>Auxiliary facts\<close>

lemma replace_all_empty_filter: "replace_all_empty c s = filter (\<lambda>x. x \<noteq> c) s"
  by (induction s) auto

lemma strip_grouping_filter: "strip_grouping t = filter (\<lambda>c. c \<noteq> 0x2E \<and> c \<noteq> 0x2C) t"
  by (simp add: strip_grouping_def replace_all_empty_filter conj_commute)

lemma digit_not_space: "is_digit c \<Longrightarrow> \<not> is_js_space c"
  unfolding is_digit_def is_js_space_def
  by (auto simp: word_le_def word_less_def)

lemma dot_not_digit: "\<not> is_digit 0x2E"
  by (simp add: is_digit_def)

lemma takeWhile_digits_dot:
  "\<forall>c\<in>set ds. is_digit c \<Longrightarrow> takeWhile is_digit (ds @ 0x2E # cs) = ds"
  by (induction ds) (auto simp: dot_not_digit)

lemma dropWhile_digits_dot:
  "\<forall>c\<in>set ds. is_digit c \<Longrightarrow> dropWhile is_digit (ds @ 0x2E # cs) = 0x2E # cs"
  by (induction ds) (auto simp: dot_not_digit)

lemma takeWhile_all: "\<forall>c\<in>set cs. P c \<Longrightarrow> takeWhile P cs = cs"
  by (induction cs) auto

lemma dropWhile_all: "\<forall>c\<in>set cs. P c \<Longrightarrow> dropWhile P cs = []"
  by (induction cs) auto

lemma unsigned_literal_digits:
  assumes "ds \<noteq> []" "\<forall>c\<in>set ds. is_digit c" "\<forall>c\<in>set cs. is_digit c"
  shows "unsigned_literal (ds @ 0x2E # cs) =
           Some (NumberOf (of_nat (digits_val ds) + of_nat (digits_val cs) / 10 ^ length cs))"
proof -
  obtain d ds' where ds: "ds = d # ds'" using assms(1) by (cases ds) auto
  have d: "is_digit d" using assms(2) ds by simp
  then have "d \<noteq> 0x49" by (auto simp: is_digit_def)
  then have inf: "\<not> starts_with (ds @ 0x2E # cs) (js_of ''Infinity'')"
    by (auto simp: starts_with_def js_of_def ds)
  have tw: "takeWhile is_digit (ds @ 0x2E # cs) = ds"
    using assms(2) by (rule takeWhile_digits_dot)
  have dw: "dropWhile is_digit (ds @ 0x2E # cs) = 0x2E # cs"
    using assms(2) by (rule dropWhile_digits_dot)
  have tc: "takeWhile is_digit cs = cs" using assms(3) by (rule takeWhile_all)
  have dc: "dropWhile is_digit cs = []" using assms(3) by (rule dropWhile_all)
  have ex: "exponent_part [] = 0" by (simp add: exponent_part_def)
  show ?thesis
    unfolding unsigned_literal_def Let_def tw dw
    using inf assms(1) by (simp add: tc dc ex scale10_def)
qed

lemma parseFloat_digits:
  assumes "ds \<noteq> []" "\<forall>c\<in>set ds. is_digit c" "\<forall>c\<in>set cs. is_digit c"
  shows "parseFloat (ds @ [0x2E] @ cs) =
           NumberOf (of_nat (digits_val ds) + of_nat (digits_val cs) / 10 ^ length cs)"
proof -
  obtain d ds' where ds: "ds = d # ds'" using assms(1) by (cases ds) auto
  have d: "is_digit d" using assms(2) ds by simp
  then have nsp: "\<not> is_js_space d" by (rule digit_not_space)
  have sgn: "d \<noteq> 0x2D" "d \<noteq> 0x2B" using d by (auto simp: is_digit_def)
  have "parseFloat (d # ds' @ 0x2E # cs) =
          (case unsigned_literal (d # ds' @ 0x2E # cs) of None \<Rightarrow> NaN | Some x \<Rightarrow> x)"
    using nsp sgn by (simp add: parseFloat_def)
  then show ?thesis
    using unsigned_literal_digits[OF assms] by (simp add: ds)
qed

lemma each_item_acc: "each_item acc ns = acc @ List.map_filter emitted ns"
  by (induction ns arbitrary: acc)
     (auto simp: emitted_def List.map_filter_simps split: item_outcome.splits)

lemma extract_map_filter: "extract_products ns = List.map_filter emitted ns"
  by (simp add: extract_products_def each_item_acc)

lemma map_filter_append:
  "List.map_filter f (xs @ ys) = List.map_filter f xs @ List.map_filter f ys"
  by (simp add: List.map_filter_def)

lemma extract_split:
  "extract_products (xs @ n # ys) =
     extract_products xs @ (case emitted n of None \<Rightarrow> [] | Some r \<Rightarrow> [r]) @ extract_products ys"
  by (simp add: extract_map_filter map_filter_append List.map_filter_simps split: option.splits)

lemma pushed_title_length: "item_callback n = Pushed r \<Longrightarrow> length (title r) \<le> 200"
  by (auto simp: item_callback_def make_product_def substring0_def
      split: sum.splits option.splits if_splits)

lemma phone_resolved:
  "resolve_fields phone_node =
     Inr (Some \<lparr>f_title = js_of ''Phone'', f_price = NumberOf (30864 / 25),
       f_permalink = Some (js_of ''https://www.mercadolivre.com.br/item/123''),
       f_thumbnail = Some (js_of ''https://img/1.jpg'')\<rparr>)"
  by code_simp

lemma long_resolved:
  "resolve_fields long_title_node =
     Inr (Some \<lparr>f_title = replicate 250 0x41, f_price = NumberOf (15 / 2),
       f_permalink = Some (js_of ''https://www.mercadolivre.com.br/item/9''),
       f_thumbnail = Some (js_of ''https://img/9.jpg'')\<rparr>)"
  by code_simp

lemma not_complete_zero: "f_price f = NumberOf 0 \<Longrightarrow> \<not> complete f"
  by (simp add: complete_def js_gt_zero_def)

lemma each_item_single:
  "each_item products [n] = (case emitted n of None \<Rightarrow> products | Some r \<Rightarrow> products @ [r])"
  by (simp add: emitted_def split: item_outcome.splits)

lemma emitted_Some_iff:
  "(\<exists>r. emitted n = Some r) \<longleftrightarrow>
     (\<exists>f. resolve_fields n = Inr (Some f) \<and> f_title f \<noteq> [] \<and> js_gt_zero (f_price f) \<and>
          (\<exists>p. f_permalink f = Some p \<and> p \<noteq> []) \<and> (\<exists>t. f_thumbnail f = Some t \<and> t \<noteq> []))"
  by (auto simp: emitted_def item_callback_def complete_def truthy_def
      split: sum.splits option.splits if_splits)

lemma extract_titles: "r \<in> set (extract_products ns) \<Longrightarrow> length (title r) \<le> 200"
  by (auto simp: extract_map_filter List.map_filter_def emitted_def
      split: item_outcome.splits dest: pushed_title_length)

lemma emitted_eq_iff:
  "emitted n = Some r \<longleftrightarrow>
     (\<exists>f p t. resolve_fields n = Inr (Some f) \<and> f_title f \<noteq> [] \<and> js_gt_zero (f_price f) \<and>
          f_permalink f = Some p \<and> p \<noteq> [] \<and> f_thumbnail f = Some t \<and> t \<noteq> [] \<and>
          r = \<lparr>title = take 200 (f_title f), price = f_price f, permalink = p, thumbnail = t\<rparr>)"
  by (auto simp: emitted_def item_callback_def complete_def truthy_def make_product_def
      substring0_def split: sum.splits option.splits if_splits)

lemma extract_from_node:
  "r \<in> set (extract_products ns) \<Longrightarrow> \<exists>n\<in>set ns. emitted n = Some r"
  by (auto simp: extract_map_filter List.map_filter_def)

text \<open>
  Claim C1. Running the callback on an item node appends a record to \<open>products\<close> if and
  only if the fields of the node are resolved (the node is not sponsored and no query
  throws) with a non-empty title, a price above zero, a non-empty permalink and a
  non-empty thumbnail; the record appended is then the resolved title cut to its first
  200 code units with the resolved price, permalink and thumbnail, and otherwise the
  array is left as it was. Every record of the output array is such a record of one of
  the nodes and has a title of at most 200 code units.
\<close>

theorem record_pushed_iff_complete:
  "(\<forall>r. each_item products [n] = products @ [r] \<longleftrightarrow>
      (\<exists>f p t. resolve_fields n = Inr (Some f) \<and> f_title f \<noteq> [] \<and> js_gt_zero (f_price f) \<and>
           f_permalink f = Some p \<and> p \<noteq> [] \<and> f_thumbnail f = Some t \<and> t \<noteq> [] \<and>
           r = \<lparr>title = take 200 (f_title f), price = f_price f, permalink = p, thumbnail = t\<rparr>)) \<and>
   ((\<nexists>r. each_item products [n] = products @ [r]) \<longrightarrow> each_item products [n] = products) \<and>
   (\<forall>r \<in> set (extract_products ns).
      length (title r) \<le> 200 \<and>
      (\<exists>m\<in>set ns. \<exists>f p t. resolve_fields m = Inr (Some f) \<and> f_title f \<noteq> [] \<and>
           js_gt_zero (f_price f) \<and> f_permalink f = Some p \<and> p \<noteq> [] \<and>
           f_thumbnail f = Some t \<and> t \<noteq> [] \<and>
           r = \<lparr>title = take 200 (f_title f), price = f_price f, permalink = p, thumbnail = t\<rparr>))"
proof -
  have a: "each_item products [n] = products @ [r] \<longleftrightarrow> emitted n = Some r" for r
    by (cases "emitted n") (simp_all add: each_item_single del: each_item.simps)
  have b: "(\<nexists>r. each_item products [n] = products @ [r]) \<longrightarrow> each_item products [n] = products"
    by (cases "emitted n") (simp_all add: each_item_single del: each_item.simps)
  have c: "\<exists>m\<in>set ns. \<exists>f p t. resolve_fields m = Inr (Some f) \<and> f_title f \<noteq> [] \<and>
           js_gt_zero (f_price f) \<and> f_permalink f = Some p \<and> p \<noteq> [] \<and>
           f_thumbnail f = Some t \<and> t \<noteq> [] \<and>
           r = \<lparr>title = take 200 (f_title f), price = f_price f, permalink = p, thumbnail = t\<rparr>"
    if "r \<in> set (extract_products ns)" for r
  proof -
    from extract_from_node[OF that] obtain m where "m \<in> set ns" "emitted m = Some r" by blast
    then show ?thesis using emitted_eq_iff[of m r] by blast
  qed
  have d: "\<forall>r. each_item products [n] = products @ [r] \<longleftrightarrow>
      (\<exists>f p t. resolve_fields n = Inr (Some f) \<and> f_title f \<noteq> [] \<and> js_gt_zero (f_price f) \<and>
           f_permalink f = Some p \<and> p \<noteq> [] \<and> f_thumbnail f = Some t \<and> t \<noteq> [] \<and>
           r = \<lparr>title = take 200 (f_title f), price = f_price f, permalink = p, thumbnail = t\<rparr>)"
    unfolding a by (rule allI) (rule emitted_eq_iff)
  have e: "\<forall>r \<in> set (extract_products ns).
      length (title r) \<le> 200 \<and>
      (\<exists>m\<in>set ns. \<exists>f p t. resolve_fields m = Inr (Some f) \<and> f_title f \<noteq> [] \<and>
           js_gt_zero (f_price f) \<and> f_permalink f = Some p \<and> p \<noteq> [] \<and>
           f_thumbnail f = Some t \<and> t \<noteq> [] \<and>
           r = \<lparr>title = take 200 (f_title f), price = f_price f, permalink = p, thumbnail = t\<rparr>)"
    using c extract_titles by blast
  from d b e show ?thesis by (intro conjI)
qed

theorem record_pushed_iff_complete_witness:
  "each_item [] [long_title_node] =
     [] @ [\<lparr>title = take 200 (replicate 250 0x41), price = NumberOf (15 / 2),
            permalink = js_of ''https://www.mercadolivre.com.br/item/9'',
            thumbnail = js_of ''https://img/9.jpg''\<rparr>] \<and>
   list_all (\<lambda>r. length (title r) \<le> 200) (extract_products [long_title_node]) \<and>
   map (\<lambda>r. length (title r)) (extract_products [long_title_node]) = [200]"
proof -
  let ?f = "\<lparr>f_title = replicate 250 0x41, f_price = NumberOf (15 / 2),
       f_permalink = Some (js_of ''https://www.mercadolivre.com.br/item/9''),
       f_thumbnail = Some (js_of ''https://img/9.jpg'')\<rparr>"
  let ?r = "\<lparr>title = take 200 (replicate 250 0x41), price = NumberOf (15 / 2),
            permalink = js_of ''https://www.mercadolivre.com.br/item/9'',
            thumbnail = js_of ''https://img/9.jpg''\<rparr>"
  have "resolve_fields long_title_node = Inr (Some ?f) \<and> f_title ?f \<noteq> [] \<and>
      js_gt_zero (f_price ?f) \<and>
      f_permalink ?f = Some (js_of ''https://www.mercadolivre.com.br/item/9'') \<and>
      js_of ''https://www.mercadolivre.com.br/item/9'' \<noteq> [] \<and>
      f_thumbnail ?f = Some (js_of ''https://img/9.jpg'') \<and> js_of ''https://img/9.jpg'' \<noteq> [] \<and>
      ?r = \<lparr>title = take 200 (f_title ?f), price = f_price ?f,
             permalink = js_of ''https://www.mercadolivre.com.br/item/9'',
             thumbnail = js_of ''https://img/9.jpg''\<rparr>"
    by (simp add: long_resolved js_gt_zero_def js_of_def)
  then have "\<exists>f p t. resolve_fields long_title_node = Inr (Some f) \<and> f_title f \<noteq> [] \<and>
      js_gt_zero (f_price f) \<and> f_permalink f = Some p \<and> p \<noteq> [] \<and>
      f_thumbnail f = Some t \<and> t \<noteq> [] \<and>
      ?r = \<lparr>title = take 200 (f_title f), price = f_price f, permalink = p, thumbnail = t\<rparr>"
    by blast
  then have a: "each_item [] [long_title_node] = [] @ [?r]"
    and b: "\<forall>r \<in> set (extract_products [long_title_node]). length (title r) \<le> 200"
    using record_pushed_iff_complete[of "[]" long_title_node "[long_title_node]"] by blast+
  from a have c: "map (\<lambda>r. length (title r)) (extract_products [long_title_node]) = [200]"
    by (simp add: extract_products_def)
  from a b c show ?thesis by (simp add: list_all_iff)
qed

lemma price_of_texts_nonempty:
  "strip_grouping ft \<noteq> [] \<Longrightarrow>
     price_of_texts ft ct = parseFloat (strip_grouping ft @ [0x2E] @ (if ct = [] then js_of ''00'' else ct))"
  by (simp add: price_of_texts_def compose_price_def cents_or_default_def)

lemma price_of_texts_empty: "strip_grouping ft = [] \<Longrightarrow> price_of_texts ft ct = NumberOf 0"
  by (simp add: price_of_texts_def compose_price_def)

lemma zeros_digits: "\<forall>c\<in>set (js_of ''00''). is_digit c"
  by (simp add: js_of_def is_digit_def)

lemma zeros_val: "digits_val (js_of ''00'') = 0"
  by (simp add: js_of_def digits_val_def digit_val_def)

lemma digits_val_Nil: "digits_val [] = 0"
  by (simp add: digits_val_def)

lemma price_of_digit_texts:
  assumes "strip_grouping ft \<noteq> []" "\<forall>c\<in>set (strip_grouping ft). is_digit c" "\<forall>c\<in>set ct. is_digit c"
  shows "price_of_texts ft ct =
           NumberOf (of_nat (digits_val (strip_grouping ft)) + of_nat (digits_val ct) / 10 ^ length ct)"
proof (cases "ct = []")
  case True
  then show ?thesis
    using assms parseFloat_digits[OF assms(1,2) zeros_digits]
    by (simp add: price_of_texts_nonempty zeros_val digits_val_Nil)
next
  case False
  then show ?thesis
    using assms parseFloat_digits[OF assms] by (simp add: price_of_texts_nonempty)
qed

lemma empty_fraction_not_emitted:
  assumes "find_first_text n ''.andes-money-amount__fraction'' = Inr ft" "strip_grouping ft = []"
  shows "emitted n = None"
proof (cases "resolve_fields n")
  case (Inl e)
  then show ?thesis by (simp add: emitted_def item_callback_def)
next
  case (Inr v)
  show ?thesis
  proof (cases v)
    case None
    with Inr show ?thesis by (simp add: emitted_def item_callback_def)
  next
    case (Some f)
    with Inr assms have "f_price f = price_of_texts ft (case find_first_text n ''.andes-money-amount__cents'' of Inr c \<Rightarrow> c | _ \<Rightarrow> [])"
      by (auto simp: resolve_fields_def ebind_def split: sum.splits if_splits)
    then have "f_price f = NumberOf 0" using assms(2) by (simp add: price_of_texts_empty)
    then have "\<not> complete f" by (rule not_complete_zero)
    with Inr Some show ?thesis by (simp add: emitted_def item_callback_def)
  qed
qed

text \<open>
  Claim C2. The price is a function of the two price texts. Dots and commas are removed
  from the integer-part text; an empty fractional-part text counts as \<open>00\<close>; when the
  stripped integer part is not empty the price is \<open>parseFloat\<close> of integer part, dot,
  fractional part, which for digit strings is the integer value plus the fraction value
  over the matching power of ten, and the integer value alone when the fractional part
  is missing; \<open>1.234\<close> with \<open>56\<close> is 1234.56. When the integer-part text is empty
  (or holds grouping punctuation only) the price is 0, which is not above zero, and no
  record is emitted for the node.
\<close>

theorem price_parsing:
  "strip_grouping ft = filter (\<lambda>c. c \<noteq> 0x2E \<and> c \<noteq> 0x2C) ft \<and>
   price_of_texts ft [] = price_of_texts ft (js_of ''00'') \<and>
   (strip_grouping ft \<noteq> [] \<longrightarrow>
      price_of_texts ft ct =
        parseFloat (strip_grouping ft @ [0x2E] @ (if ct = [] then js_of ''00'' else ct))) \<and>
   (strip_grouping ft \<noteq> [] \<and> (\<forall>c\<in>set (strip_grouping ft). is_digit c) \<and> (\<forall>c\<in>set ct. is_digit c) \<longrightarrow>
      price_of_texts ft ct =
        NumberOf (of_nat (digits_val (strip_grouping ft)) + of_nat (digits_val ct) / 10 ^ length ct) \<and>
      price_of_texts ft [] = NumberOf (of_nat (digits_val (strip_grouping ft)))) \<and>
   price_of_texts (js_of ''1.234'') (js_of ''56'') = NumberOf (123456 / 100) \<and>
   (strip_grouping ft = [] \<longrightarrow> price_of_texts ft ct = NumberOf 0 \<and> \<not> js_gt_zero (price_of_texts ft ct)) \<and>
   (find_first_text n ''.andes-money-amount__fraction'' = Inr ft \<and> strip_grouping ft = [] \<longrightarrow>
      emitted n = None \<and> extract_products (xs @ n # ys) = extract_products xs @ extract_products ys)"
proof -
  have a: "price_of_texts ft [] = price_of_texts ft (js_of ''00'')"
    by (simp add: price_of_texts_def cents_or_default_def js_of_def)
  have b: "price_of_texts (js_of ''1.234'') (js_of ''56'') = NumberOf (123456 / 100)"
    by code_simp
  have c: "strip_grouping ft \<noteq> [] \<and> (\<forall>c\<in>set (strip_grouping ft). is_digit c) \<Longrightarrow>
      price_of_texts ft [] = NumberOf (of_nat (digits_val (strip_grouping ft)))"
    using price_of_digit_texts[of ft "[]"] by (simp add: digits_val_Nil)
  have d: "strip_grouping ft = [] \<Longrightarrow> \<not> js_gt_zero (price_of_texts ft ct)"
    by (simp add: price_of_texts_empty js_gt_zero_def)
  have e: "find_first_text n ''.andes-money-amount__fraction'' = Inr ft \<and> strip_grouping ft = [] \<Longrightarrow>
      extract_products (xs @ n # ys) = extract_products xs @ extract_products ys"
    using empty_fraction_not_emitted[of n ft] by (simp add: extract_split)
  show ?thesis
    using a b c d e strip_grouping_filter[of ft] price_of_texts_nonempty[of ft ct]
      price_of_digit_texts[of ft ct] price_of_texts_empty[of ft ct] empty_fraction_not_emitted[of n ft]
    by blast
qed

theorem price_parsing_witness:
  "strip_grouping (js_of ''12.345.678'') = js_of ''12345678'' \<and>
   price_of_texts (js_of ''12.345.678'') (js_of ''05'') = NumberOf (1234567805 / 100) \<and>
   price_of_texts (js_of ''12.345.678'') [] = NumberOf 12345678 \<and>
   price_of_texts [] (js_of ''90'') = NumberOf 0 \<and>
   emitted unpriced_node = None \<and>
   extract_products ([phone_node] @ unpriced_node # [case_node]) =
     extract_products [phone_node] @ extract_products [case_node]"
proof -
  have s: "strip_grouping (js_of ''12.345.678'') = js_of ''12345678''"
    by (simp add: strip_grouping_def js_of_def)
  have ne: "strip_grouping (js_of ''12.345.678'') \<noteq> []" unfolding s by (simp add: js_of_def)
  have d1: "\<forall>c\<in>set (strip_grouping (js_of ''12.345.678'')). is_digit c"
    unfolding s by (simp add: js_of_def is_digit_def)
  have d2: "\<forall>c\<in>set (js_of ''05''). is_digit c" by (simp add: js_of_def is_digit_def)
  have v1: "digits_val (js_of ''12345678'') = 12345678"
    by (simp add: js_of_def digits_val_def digit_val_def)
  have v2: "digits_val (js_of ''05'') = 5" "length (js_of ''05'') = 2"
    by (simp_all add: js_of_def digits_val_def digit_val_def)
  have q: "find_first_text unpriced_node ''.andes-money-amount__fraction'' = Inr []"
    by (simp add: unpriced_node_def sample_node_def)
  have e: "strip_grouping [] = []" by (simp add: strip_grouping_def)
  note t1 = price_parsing[of "js_of ''12.345.678''" "js_of ''05''" unpriced_node "[]" "[]"]
  note t2 = price_parsing[of "[]" "js_of ''90''" unpriced_node "[phone_node]" "[case_node]"]
  have p: "price_of_texts (js_of ''12.345.678'') (js_of ''05'') =
        NumberOf (of_nat (digits_val (strip_grouping (js_of ''12.345.678''))) +
                  of_nat (digits_val (js_of ''05'')) / 10 ^ length (js_of ''05''))"
    "price_of_texts (js_of ''12.345.678'') [] =
        NumberOf (of_nat (digits_val (strip_grouping (js_of ''12.345.678''))))"
    using t1 ne d1 d2 by blast+
  have p1: "price_of_texts (js_of ''12.345.678'') (js_of ''05'') = NumberOf (1234567805 / 100)"
    unfolding p(1) s v1 v2 by simp
  have p2: "price_of_texts (js_of ''12.345.678'') [] = NumberOf 12345678"
    unfolding p(2) s v1 by simp
  have "price_of_texts [] (js_of ''90'') = NumberOf 0" "emitted unpriced_node = None"
    "extract_products ([phone_node] @ unpriced_node # [case_node]) =
       extract_products [phone_node] @ extract_products [case_node]"
    using t2 q e by blast+
  then show ?thesis using s p1 p2 by blast
qed

lemma origin_starts_http: "starts_with (site_origin @ s) (js_of ''http'')"
  by (simp add: starts_with_def site_origin_def js_of_def)

lemma origin_absolute: "absolute_url_spec (site_origin @ s)"
  by (simp add: absolute_url_spec_def site_origin_def js_of_def is_alpha_def is_scheme_char_def
      is_digit_def)

text \<open>
  Claim C3 as stated fails: a link with an upper-case scheme is absolute, and the
  handler prefixes it with the site origin all the same.
\<close>

theorem absolute_link_counterexample:
  "absolute_url_spec (js_of ''HTTPS://www.mercadolivre.com.br/item/123'') \<and>
   normalize_permalink (Some (js_of ''HTTPS://www.mercadolivre.com.br/item/123'')) =
     Some (js_of ''https://www.mercadolivre.com.brHTTPS://www.mercadolivre.com.br/item/123'') \<and>
   normalize_permalink (Some (js_of ''HTTPS://www.mercadolivre.com.br/item/123'')) \<noteq>
     Some (js_of ''HTTPS://www.mercadolivre.com.br/item/123'')"
  by (simp add: absolute_url_spec_def normalize_permalink_def starts_with_def site_origin_def
      js_of_def is_alpha_def is_scheme_char_def is_digit_def)

text \<open>
  Claim C3, amended. A non-empty permalink that does not begin with \<open>http\<close> is rewritten
  by prefixing the site origin, and the result is an absolute link; \<open>/item/123\<close> becomes
  \<open>https://www.mercadolivre.com.br/item/123\<close>. A permalink that begins with \<open>http\<close>
  passes through unchanged. Hence every non-empty permalink begins with \<open>http\<close> after
  the step, and the step applied twice is the step applied once.
\<close>

theorem permalink_normalization:
  "(s \<noteq> [] \<and> \<not> starts_with s (js_of ''http'') \<longrightarrow>
      normalize_permalink (Some s) = Some (site_origin @ s) \<and> absolute_url_spec (site_origin @ s)) \<and>
   (starts_with s (js_of ''http'') \<longrightarrow> normalize_permalink (Some s) = Some s) \<and>
   normalize_permalink (Some (js_of ''/item/123'')) =
     Some (js_of ''https://www.mercadolivre.com.br/item/123'') \<and>
   (s \<noteq> [] \<longrightarrow> (\<exists>t. normalize_permalink (Some s) = Some t \<and> starts_with t (js_of ''http''))) \<and>
   normalize_permalink (normalize_permalink p) = normalize_permalink p"
proof -
  have a: "normalize_permalink (Some (js_of ''/item/123'')) =
     Some (js_of ''https://www.mercadolivre.com.br/item/123'')"
    by (simp add: normalize_permalink_def starts_with_def site_origin_def js_of_def)
  have b: "normalize_permalink (normalize_permalink p) = normalize_permalink p"
    by (cases p) (simp_all add: normalize_permalink_def origin_starts_http)
  have c: "s \<noteq> [] \<longrightarrow> (\<exists>t. normalize_permalink (Some s) = Some t \<and> starts_with t (js_of ''http''))"
    by (simp add: normalize_permalink_def origin_starts_http)
  have d: "s \<noteq> [] \<and> \<not> starts_with s (js_of ''http'') \<longrightarrow>
      normalize_permalink (Some s) = Some (site_origin @ s)"
    by (simp add: normalize_permalink_def)
  have e: "starts_with s (js_of ''http'') \<longrightarrow> normalize_permalink (Some s) = Some s"
    by (simp add: normalize_permalink_def)
  show ?thesis using a b c d e origin_absolute[of s] by blast
qed

theorem permalink_normalization_witness:
  "normalize_permalink (Some (js_of ''/MLB-1/p'')) = Some (js_of ''https://www.mercadolivre.com.br/MLB-1/p'') \<and>
   normalize_permalink (Some (js_of ''https://produto.mercadolivre.com.br/MLB-1'')) =
     Some (js_of ''https://produto.mercadolivre.com.br/MLB-1'')"
proof -
  have h1: "js_of ''/MLB-1/p'' \<noteq> [] \<and> \<not> starts_with (js_of ''/MLB-1/p'') (js_of ''http'')"
    by (simp add: starts_with_def js_of_def)
  have h2: "starts_with (js_of ''https://produto.mercadolivre.com.br/MLB-1'') (js_of ''http'')"
    by (simp add: starts_with_def js_of_def)
  have o: "site_origin @ js_of ''/MLB-1/p'' = js_of ''https://www.mercadolivre.com.br/MLB-1/p''"
    by (simp add: site_origin_def js_of_def)
  have "normalize_permalink (Some (js_of ''/MLB-1/p'')) = Some (site_origin @ js_of ''/MLB-1/p'')"
    using permalink_normalization[of "js_of ''/MLB-1/p''" None] h1 by blast
  moreover have "normalize_permalink (Some (js_of ''https://produto.mercadolivre.com.br/MLB-1'')) =
     Some (js_of ''https://produto.mercadolivre.com.br/MLB-1'')"
    using permalink_normalization[of "js_of ''https://produto.mercadolivre.com.br/MLB-1''" None] h2
    by blast
  ultimately show ?thesis by (simp add: o)
qed

lemma self_marked_resolved:
  "resolve_fields self_marked_node =
     Inr (Some \<lparr>f_title = js_of ''Phone'', f_price = NumberOf (30864 / 25),
       f_permalink = Some (js_of ''https://www.mercadolivre.com.br/item/123''),
       f_thumbnail = Some (js_of ''https://img/1.jpg'')\<rparr>)"
  by code_simp

text \<open>
  Claim C7 as stated fails: a node whose own element carries the sponsored class, with
  no descendant carrying it, is not skipped; its fields are resolved and its record is in
  the output array.
\<close>

theorem self_marked_node_counterexample:
  "carries_ad_marker self_marked_node \<and>
   find_length self_marked_node ''.ui-search-item--ad'' = Inr 0 \<and>
   extract_products [self_marked_node] =
     [\<lparr>title = js_of ''Phone'', price = NumberOf (30864 / 25),
       permalink = js_of ''https://www.mercadolivre.com.br/item/123'',
       thumbnail = js_of ''https://img/1.jpg''\<rparr>]"
proof -
  have a: "carries_ad_marker self_marked_node"
    by (simp add: carries_ad_marker_def self_marked_node_def)
  have b: "find_length self_marked_node ''.ui-search-item--ad'' = Inr 0"
    by (simp add: self_marked_node_def phone_node_def sample_node_def)
  have c: "extract_products [self_marked_node] =
     [\<lparr>title = js_of ''Phone'', price = NumberOf (30864 / 25),
       permalink = js_of ''https://www.mercadolivre.com.br/item/123'',
       thumbnail = js_of ''https://img/1.jpg''\<rparr>]"
    by (simp add: extract_products_def item_callback_def self_marked_resolved complete_def
        truthy_def js_gt_zero_def js_of_def make_product_def substring0_def)
  from a b c show ?thesis by blast
qed

text \<open>
  Claim C7, amended. A node in which the sponsored marker is found on a descendant, which
  is what \<open>find\<close> counts, is skipped: the callback ends as a sponsored skip whatever the
  other queries of the node would answer or throw, so none of them decides anything, the
  array is left as it was, and the output of the pass is that of the nodes before it
  followed by that of the nodes after it.
\<close>

theorem sponsored_node_skipped:
  assumes "find_length n ''.ui-search-item--ad'' = Inr k" and "0 < k"
  shows "item_callback n = SkippedSponsored \<and>
         item_callback (n\<lparr>find_text := ft, find_first_text := fft, find_attr := fa\<rparr>) = SkippedSponsored \<and>
         emitted n = None \<and>
         each_item products [n] = products \<and>
         extract_products (xs @ n # ys) = extract_products xs @ extract_products ys"
proof -
  have r: "resolve_fields m = Inr None" if "find_length m ''.ui-search-item--ad'' = Inr k" for m
    using that assms(2) by (simp add: resolve_fields_def ebind_def)
  have a: "item_callback n = SkippedSponsored"
    using r[of n] assms(1) by (simp add: item_callback_def)
  have b: "item_callback (n\<lparr>find_text := ft, find_first_text := fft, find_attr := fa\<rparr>) = SkippedSponsored"
    using r[of "n\<lparr>find_text := ft, find_first_text := fft, find_attr := fa\<rparr>"] assms(1)
    by (simp add: item_callback_def)
  have c: "emitted n = None" using a by (simp add: emitted_def)
  have d: "each_item products [n] = products" using a by simp
  show ?thesis using a b c d by (simp add: extract_split)
qed

theorem sponsored_node_skipped_witness:
  "find_length (throwing_node 2) ''.ui-search-item--ad'' = Inr 2 \<and>
   item_callback (throwing_node 2) = SkippedSponsored \<and>
   extract_products ([phone_node] @ throwing_node 2 # [case_node]) =
     extract_products [phone_node] @ extract_products [case_node]"
proof -
  have h: "find_length (throwing_node 2) ''.ui-search-item--ad'' = Inr 2"
    by (simp add: throwing_node_def)
  show ?thesis
    using h sponsored_node_skipped[OF h, where xs = "[phone_node]" and ys = "[case_node]"]
    by simp
qed

text \<open>
  Claim C8. When resolving the fields of a node throws, the callback ends as a logged
  skip carrying the message, the loop goes on with the remaining nodes from the same
  array, and the output of the pass is that of the nodes before the failing one followed
  by that of the nodes after it.
\<close>

theorem item_exception_isolated:
  assumes "resolve_fields n = Inl e"
  shows "item_callback n = SkippedError (message e) \<and>
         each_item products (n # ns) = each_item products ns \<and>
         extract_products (xs @ n # ys) = extract_products xs @ extract_products ys"
proof -
  have a: "item_callback n = SkippedError (message e)"
    using assms by (simp add: item_callback_def)
  then have "emitted n = None" by (simp add: emitted_def)
  then show ?thesis using a by (simp add: extract_split)
qed

theorem item_exception_isolated_witness:
  "resolve_fields (throwing_node 0) = Inl (JsError (js_of ''boom'')) \<and>
   item_callback (throwing_node 0) = SkippedError (js_of ''boom'') \<and>
   extract_products ([phone_node] @ throwing_node 0 # [case_node]) =
     extract_products [phone_node] @ extract_products [case_node]"
proof -
  have h: "resolve_fields (throwing_node 0) = Inl (JsError (js_of ''boom''))"
    by (simp add: throwing_node_def resolve_fields_def ebind_def title_selectors_def)
  show ?thesis
    using h item_exception_isolated[OF h, where xs = "[phone_node]" and ys = "[case_node]"] by simp
qed

lemma filter_nth_upt:
  "filter P xs = map (nth xs) (filter (\<lambda>i. P (xs ! i)) [0..<length xs])"
proof -
  have "filter P xs = filter P (map (nth xs) [0..<length xs])" by (simp add: map_nth)
  also have "\<dots> = map (nth xs) (filter (P \<circ> nth xs) [0..<length xs])" by (rule filter_map)
  finally show ?thesis by (simp add: comp_def)
qed

text \<open>
  Claim C10. The output array is the list of the records of the nodes that are not
  skipped, in the order of the nodes: it is read off the positions \<open>0, 1, ...\<close> of the
  node list in increasing order, each position with a record exactly once, and the pass
  over a concatenation is the concatenation of the passes.
\<close>

theorem extraction_order_preserving:
  "extract_products ns = map (\<lambda>n. the (emitted n)) (filter (\<lambda>n. emitted n \<noteq> None) ns) \<and>
   extract_products ns =
     map (\<lambda>i. the (emitted (ns ! i))) (filter (\<lambda>i. emitted (ns ! i) \<noteq> None) [0..<length ns]) \<and>
   extract_products (xs @ ys) = extract_products xs @ extract_products ys"
proof -
  have a: "extract_products ns = map (\<lambda>n. the (emitted n)) (filter (\<lambda>n. emitted n \<noteq> None) ns)"
    by (induction ns) (auto simp: extract_map_filter List.map_filter_simps)
  have "map (\<lambda>n. the (emitted n)) (filter (\<lambda>n. emitted n \<noteq> None) ns) =
        map (\<lambda>i. the (emitted (ns ! i))) (filter (\<lambda>i. emitted (ns ! i) \<noteq> None) [0..<length ns])"
    by (subst filter_nth_upt) (simp add: comp_def)
  with a show ?thesis by (simp add: extract_map_filter map_filter_append)
qed

section \<open>Properties of the browser session\<close>

subsection \<open>The log of the overlay dismisser\<close>

lemma perform_cases:
  obtains e w where "perform ev call s = (Inl e, (w, snd s @ [(ev, False)]))"
  | a w where "perform ev call s = (Inr a, (w, snd s @ [(ev, True)]))"
proof (cases "call (fst s)")
  case (Pair r w)
  then show ?thesis using that by (cases r) (auto simp: perform_def)
qed

lemma snd_pause: "snd (pause api ms s) = snd s @ [(Sleep ms, True)]"
  by (simp add: pause_def)

lemma clicked_elements_simps:
  "clicked_elements [] = []"
  "clicked_elements (xs @ ys) = clicked_elements xs @ clicked_elements ys"
  "clicked_elements ((ev, b) # xs) =
     (case ev of ElementClick sel \<Rightarrow> if b then sel # clicked_elements xs else clicked_elements xs
      | _ \<Rightarrow> clicked_elements xs)"
  by (auto simp: clicked_elements_def List.map_filter_def split: event.splits)

lemma queried_selectors_simps:
  "queried_selectors [] = []"
  "queried_selectors (xs @ ys) = queried_selectors xs @ queried_selectors ys"
  "queried_selectors ((ev, b) # xs) =
     (case ev of QuerySelector sel \<Rightarrow> sel # queried_selectors xs | _ \<Rightarrow> queried_selectors xs)"
  by (auto simp: queried_selectors_def List.map_filter_def split: event.splits)

lemma evaluated_texts_simps:
  "evaluated_texts [] = []"
  "evaluated_texts (xs @ ys) = evaluated_texts xs @ evaluated_texts ys"
  "evaluated_texts ((ev, b) # xs) =
     (case ev of EvaluateTextClick t \<Rightarrow> t # evaluated_texts xs | _ \<Rightarrow> evaluated_texts xs)"
  by (auto simp: evaluated_texts_def List.map_filter_def split: event.splits)

lemma dismiss_selector_log:
  assumes "dismiss_selector api sel k s = (k', s')"
  shows "\<exists>new. snd s' = snd s @ new \<and> k' = k + length (clicked_elements new) \<and>
           queried_selectors new = [sel] \<and> evaluated_texts new = [] \<and>
           set (clicked_elements new) \<subseteq> {sel} \<and> length (clicked_elements new) \<le> 1"
proof -
  let ?s0 = "pause api 500 s"
  have l0: "snd ?s0 = snd s @ [(Sleep 500, True)]" by (rule snd_pause)
  show ?thesis
  proof (cases rule: perform_cases[of "QuerySelector sel" "query_selector api sel" ?s0])
    case (1 e w)
    with assms l0 show ?thesis
      by (auto simp: dismiss_selector_def clicked_elements_simps queried_selectors_simps
          evaluated_texts_simps)
  next
    case q: (2 a w)
    show ?thesis
    proof (cases a)
      case None
      with q assms l0 show ?thesis
        by (auto simp: dismiss_selector_def clicked_elements_simps queried_selectors_simps
            evaluated_texts_simps)
    next
      case (Some el)
      let ?s1 = "(w, snd ?s0 @ [(QuerySelector sel, True)])"
      show ?thesis
      proof (cases rule: perform_cases[of "IsVisible sel" "is_visible api el" ?s1])
        case (1 e w')
        with q Some assms l0 show ?thesis
          by (auto simp: dismiss_selector_def clicked_elements_simps queried_selectors_simps
              evaluated_texts_simps)
      next
        case v: (2 vis w')
        show ?thesis
        proof (cases vis)
          case False
          with v q Some assms l0 show ?thesis
            by (auto simp: dismiss_selector_def clicked_elements_simps queried_selectors_simps
                evaluated_texts_simps)
        next
          case True
          let ?s2 = "(w', snd ?s1 @ [(IsVisible sel, True)])"
          show ?thesis
          proof (cases rule: perform_cases[of "ElementClick sel" "click api el" ?s2])
            case (1 e w'')
            with v True q Some assms l0 show ?thesis
              by (auto simp: dismiss_selector_def clicked_elements_simps queried_selectors_simps
                  evaluated_texts_simps)
          next
            case (2 u w'')
            with v True q Some assms l0 show ?thesis
              by (auto simp: dismiss_selector_def clicked_elements_simps queried_selectors_simps
                  evaluated_texts_simps snd_pause)
          qed
        qed
      qed
    qed
  qed
qed

lemma dismiss_selectors_log:
  "dismiss_selectors api sels k s = (k', s') \<Longrightarrow>
     \<exists>new. snd s' = snd s @ new \<and> k' = k + length (clicked_elements new) \<and>
           queried_selectors new = sels \<and> evaluated_texts new = [] \<and>
           set (clicked_elements new) \<subseteq> set sels \<and>
           length (clicked_elements new) \<le> length sels"
proof (induction sels arbitrary: k s)
  case Nil
  then show ?case by (simp add: clicked_elements_simps queried_selectors_simps evaluated_texts_simps)
next
  case (Cons sel sels)
  obtain k1 s1 where d: "dismiss_selector api sel k s = (k1, s1)" by (cases "dismiss_selector api sel k s")
  with Cons.prems have r: "dismiss_selectors api sels k1 s1 = (k', s')" by simp
  from dismiss_selector_log[OF d] obtain n1 where
    n1: "snd s1 = snd s @ n1" "k1 = k + length (clicked_elements n1)"
        "queried_selectors n1 = [sel]" "evaluated_texts n1 = []" "set (clicked_elements n1) \<subseteq> {sel}"
        "length (clicked_elements n1) \<le> 1"
    by blast
  from Cons.IH[OF r] obtain n2 where
    n2: "snd s' = snd s1 @ n2" "k' = k1 + length (clicked_elements n2)"
        "queried_selectors n2 = sels" "evaluated_texts n2 = []" "set (clicked_elements n2) \<subseteq> set sels"
        "length (clicked_elements n2) \<le> length sels"
    by blast
  show ?case
    by (rule exI[of _ "n1 @ n2"])
       (use n1 n2 in \<open>auto simp: clicked_elements_simps queried_selectors_simps evaluated_texts_simps\<close>)
qed

lemma evaluate_text_click_log:
  "\<exists>new. snd (snd (evaluate_text_click api t s)) = snd s @ new \<and> clicked_elements new = [] \<and>
         queried_selectors new = [] \<and> evaluated_texts new = [t]"
proof (cases rule: perform_cases[of "EvaluateTextClick t" "begin_evaluate api" s])
  case (1 e w)
  then show ?thesis
    by (simp add: evaluate_text_click_def clicked_elements_simps queried_selectors_simps
        evaluated_texts_simps)
next
  case (2 a w)
  then show ?thesis
    by (auto simp: evaluate_text_click_def clicked_elements_simps queried_selectors_simps
        evaluated_texts_simps split: option.splits)
qed

lemma click_texts_log:
  "\<exists>new. snd (click_texts api ts s) = snd s @ new \<and> clicked_elements new = [] \<and>
         queried_selectors new = [] \<and> evaluated_texts new = map (\<lambda>p. js_of (fst p)) ts"
proof (induction ts arbitrary: s)
  case Nil
  then show ?case by (simp add: clicked_elements_simps queried_selectors_simps evaluated_texts_simps)
next
  case (Cons p ts)
  obtain t d where p: "p = (t, d)" by (cases p)
  obtain r s1 where e: "evaluate_text_click api (js_of t) s = (r, s1)"
    by (cases "evaluate_text_click api (js_of t) s")
  from evaluate_text_click_log[of api "js_of t" s] e obtain n1 where
    n1: "snd s1 = snd s @ n1" "clicked_elements n1 = []" "queried_selectors n1 = []"
        "evaluated_texts n1 = [js_of t]"
    by auto
  show ?case
  proof (cases r)
    case (Inl err)
    from Cons.IH[of s1] obtain n2 where
      n2: "snd (click_texts api ts s1) = snd s1 @ n2" "clicked_elements n2 = []"
          "queried_selectors n2 = []" "evaluated_texts n2 = map (\<lambda>p. js_of (fst p)) ts"
      by blast
    show ?thesis
      by (rule exI[of _ "n1 @ n2"])
         (use p e Inl n1 n2 in \<open>simp add: clicked_elements_simps queried_selectors_simps evaluated_texts_simps\<close>)
  next
    case (Inr b)
    from Cons.IH[of "pause api 500 s1"] obtain n2 where
      n2: "snd (click_texts api ts (pause api 500 s1)) = snd (pause api 500 s1) @ n2"
          "clicked_elements n2 = []"
          "queried_selectors n2 = []" "evaluated_texts n2 = map (\<lambda>p. js_of (fst p)) ts"
      by blast
    show ?thesis
      by (rule exI[of _ "n1 @ (Sleep 500, True) # n2"])
         (use p e Inr n1 n2 in \<open>simp add: clicked_elements_simps queried_selectors_simps evaluated_texts_simps snd_pause\<close>)
  qed
qed

lemma handlePopups_log:
  assumes "handlePopupsAndOverlays api s = (k, s')"
  shows "\<exists>new. snd s' = snd s @ new \<and> k = length (clicked_elements new) \<and>
           queried_selectors new = popupSelectors \<and>
           evaluated_texts new = map (\<lambda>p. js_of (fst p)) textBasedSelectors \<and>
           set (clicked_elements new) \<subseteq> set popupSelectors \<and> k \<le> length popupSelectors"
proof -
  obtain k1 s1 where d: "dismiss_selectors api popupSelectors 0 s = (k1, s1)"
    by (cases "dismiss_selectors api popupSelectors 0 s")
  with assms have k: "k = k1" and s': "s' = click_texts api textBasedSelectors s1"
    by (simp_all add: handlePopupsAndOverlays_def)
  from dismiss_selectors_log[OF d] obtain n1 where
    n1: "snd s1 = snd s @ n1" "k1 = 0 + length (clicked_elements n1)"
        "queried_selectors n1 = popupSelectors" "evaluated_texts n1 = []"
        "set (clicked_elements n1) \<subseteq> set popupSelectors"
        "length (clicked_elements n1) \<le> length popupSelectors"
    by blast
  from click_texts_log[of api textBasedSelectors s1] obtain n2 where
    n2: "snd (click_texts api textBasedSelectors s1) = snd s1 @ n2" "clicked_elements n2 = []"
        "queried_selectors n2 = []"
        "evaluated_texts n2 = map (\<lambda>p. js_of (fst p)) textBasedSelectors"
    by blast
  show ?thesis
    by (rule exI[of _ "n1 @ n2"])
       (use k s' n1 n2 in \<open>simp add: clicked_elements_simps queried_selectors_simps evaluated_texts_simps\<close>)
qed












subsection \<open>The readiness probe\<close>

lemma selector_waits_simps:
  "selector_waits [] = []"
  "selector_waits (xs @ ys) = selector_waits xs @ selector_waits ys"
  "selector_waits ((ev, b) # xs) =
     (case ev of WaitForSelector sel t \<Rightarrow> (sel, t) # selector_waits xs | _ \<Rightarrow> selector_waits xs)"
  by (auto simp: selector_waits_def List.map_filter_def split: event.splits)

lemma pauses_simps:
  "pauses [] = []"
  "pauses (xs @ ys) = pauses xs @ pauses ys"
  "pauses ((ev, b) # xs) = (case ev of Sleep ms \<Rightarrow> ms # pauses xs | _ \<Rightarrow> pauses xs)"
  by (auto simp: pauses_def List.map_filter_def split: event.splits)

lemma attempts_made_append: "attempts_made (xs @ ys) = attempts_made xs + attempts_made ys"
  by (simp add: attempts_made_def selector_waits_simps)

lemma attempts_made_Nil: "attempts_made [] = 0"
  by (simp add: attempts_made_def selector_waits_simps)

lemma probe_events_Nil: "probe_events []"
  by (simp add: probe_events_def selector_waits_simps pauses_simps)

lemma probe_events_append: "probe_events xs \<Longrightarrow> probe_events ys \<Longrightarrow> probe_events (xs @ ys)"
  by (auto simp: probe_events_def selector_waits_simps pauses_simps)

lemma after_failure_log:
  "\<exists>new. snd (after_failure api a m s) = snd s @ new \<and> selector_waits new = [] \<and>
         set (pauses new) \<subseteq> {3000} \<and> (\<forall>b. (Content, b) \<notin> set new)"
  by (auto simp: after_failure_def snd_pause selector_waits_simps pauses_simps)

lemma probe_attempt_log:
  "\<exists>new. snd (snd (probe_attempt api a m s)) = snd s @ new \<and> attempts_made new = 1 \<and>
         probe_events new"
proof (cases rule: perform_cases[of "WaitForSelector resultsContainerSelector 30000"
        "wait_for_selector api resultsContainerSelector 30000" s])
  case (1 e w)
  let ?s1 = "(w, snd s @ [(WaitForSelector resultsContainerSelector 30000, False)])"
  from after_failure_log[of api a m ?s1] obtain n where
    n: "snd (after_failure api a m ?s1) = snd ?s1 @ n" "selector_waits n = []"
       "set (pauses n) \<subseteq> {3000}" "\<forall>b. (Content, b) \<notin> set n" by blast
  show ?thesis
    by (rule exI[of _ "(WaitForSelector resultsContainerSelector 30000, False) # n"])
       (use 1 n in \<open>auto simp: probe_attempt_def attempts_made_def probe_events_def
          selector_waits_simps pauses_simps\<close>)
next
  case c: (2 u w)
  let ?s1 = "(w, snd s @ [(WaitForSelector resultsContainerSelector 30000, True)])"
  show ?thesis
  proof (cases rule: perform_cases[of "WaitForSelector ''.ui-search-layout__item'' 10000"
        "wait_for_selector api ''.ui-search-layout__item'' 10000" ?s1])
    case (1 e w1)
    let ?s2 = "(w1, snd ?s1 @ [(WaitForSelector ''.ui-search-layout__item'' 10000, False)])"
    from after_failure_log[of api a m ?s2] obtain n where
      n: "snd (after_failure api a m ?s2) = snd ?s2 @ n" "selector_waits n = []"
         "set (pauses n) \<subseteq> {3000}" "\<forall>b. (Content, b) \<notin> set n" by blast
    show ?thesis
      by (rule exI[of _ "(WaitForSelector resultsContainerSelector 30000, True) #
            (WaitForSelector ''.ui-search-layout__item'' 10000, False) # n"])
         (use c 1 n in \<open>auto simp: probe_attempt_def attempts_made_def probe_events_def
            selector_waits_simps pauses_simps resultsContainerSelector_def\<close>)
  next
    case i: (2 u1 w1)
    let ?s2 = "(w1, snd ?s1 @ [(WaitForSelector ''.ui-search-layout__item'' 10000, True)])"
    show ?thesis
    proof (cases rule: perform_cases[of EvaluateHasProducts "evaluate_has_products api" ?s2])
      case (1 e w2)
      let ?s3 = "(w2, snd ?s2 @ [(EvaluateHasProducts, False)])"
      from after_failure_log[of api a m ?s3] obtain n where
        n: "snd (after_failure api a m ?s3) = snd ?s3 @ n" "selector_waits n = []"
           "set (pauses n) \<subseteq> {3000}" "\<forall>b. (Content, b) \<notin> set n" by blast
      show ?thesis
        by (rule exI[of _ "(WaitForSelector resultsContainerSelector 30000, True) #
              (WaitForSelector ''.ui-search-layout__item'' 10000, True) #
              (EvaluateHasProducts, False) # n"])
           (use c i 1 n in \<open>auto simp: probe_attempt_def attempts_made_def probe_events_def
              selector_waits_simps pauses_simps resultsContainerSelector_def\<close>)
    next
      case (2 hp w2)
      show ?thesis
        by (cases hp)
           (use c i 2 in \<open>auto simp: probe_attempt_def attempts_made_def probe_events_def
              selector_waits_simps pauses_simps resultsContainerSelector_def snd_pause\<close>)
    qed
  qed
qed

lemma probe_from_log:
  "\<exists>new. snd (snd (probe_from api a m s)) = snd s @ new \<and> attempts_made new \<le> Suc m - a \<and>
         probe_events new \<and>
         (fst (probe_from api a m s) = Inl probe_failure \<or> fst (probe_from api a m s) = Inr True)"
proof (induction api a m s rule: probe_from.induct)
  case (1 api a m s)
  show ?case
  proof (cases "a \<le> m")
    case False
    then show ?thesis
      by (subst (1 2 3) probe_from.simps) (simp add: attempts_made_Nil probe_events_Nil)
  next
    case True
    obtain r s1 where p: "probe_attempt api a m s = (r, s1)" by (cases "probe_attempt api a m s")
    from probe_attempt_log[of api a m s] p obtain n1 where
      n1: "snd s1 = snd s @ n1" "attempts_made n1 = 1" "probe_events n1" by auto
    show ?thesis
    proof (cases r)
      case True
      with \<open>a \<le> m\<close> p n1 show ?thesis
        by (subst (1 2 3) probe_from.simps) auto
    next
      case False
      then have rf: "r = False" by simp
      from "1.IH"[OF \<open>a \<le> m\<close> p[symmetric] rf] obtain n2 where
        n2: "snd (snd (probe_from api (a + 1) m s1)) = snd s1 @ n2"
            "attempts_made n2 \<le> Suc m - (a + 1)" "probe_events n2"
            "fst (probe_from api (a + 1) m s1) = Inl probe_failure \<or>
             fst (probe_from api (a + 1) m s1) = Inr True"
        by auto
      have eq: "probe_from api a m s = probe_from api (a + 1) m s1"
        using \<open>a \<le> m\<close> p rf by (subst probe_from.simps) simp
      show ?thesis
        unfolding eq
        by (rule exI[of _ "n1 @ n2"])
           (use n1 n2 \<open>a \<le> m\<close> in \<open>auto simp: attempts_made_append probe_events_append\<close>)
    qed
  qed
qed

lemma probe_attempt_page:
  "probe_attempt api a m s =
     (case observe api (fst s) of
        (obs, w) \<Rightarrow>
          (items_seen obs,
           (case retry_delay obs a m of
              None \<Rightarrow> (w, snd s @ attempt_calls obs)
            | Some d \<Rightarrow> (sleep api d w, snd s @ attempt_calls obs @ [(Sleep d, True)]))))"
  by (auto simp: probe_attempt_def perform_def observe_def evaluate_has_products_def
      after_failure_def pause_def items_seen_def attempt_calls_def retry_delay_def
      resultsContainerSelector_def split: prod.splits sum.splits)

lemma state_after_page: "fst (state_after api a m j s) = page_after api a m j (fst s)"
proof (induction j arbitrary: a s)
  case 0
  then show ?case by simp
next
  case (Suc j)
  have "fst (snd (probe_attempt api a m s)) =
      (case observe api (fst s) of
         (obs, w1) \<Rightarrow> (case retry_delay obs a m of None \<Rightarrow> w1 | Some d \<Rightarrow> sleep api d w1))"
    by (simp add: probe_attempt_page split: prod.splits option.splits)
  with Suc.IH[of "Suc a" "snd (probe_attempt api a m s)"] show ?case by simp
qed

lemma items_found_code:
  "items_found api m k (fst s) = fst (probe_attempt api k m (state_after api 1 m (k - 1) s))"
  by (simp add: items_found_def probe_attempt_page state_after_page split: prod.splits)

lemma state_after_log:
  "\<exists>new. snd (state_after api a m j s) = snd s @ new \<and> attempts_made new = j \<and> probe_events new"
proof (induction j arbitrary: a s)
  case 0
  then show ?case by (simp add: attempts_made_Nil probe_events_Nil)
next
  case (Suc j)
  let ?s1 = "snd (probe_attempt api a m s)"
  from probe_attempt_log[of api a m s] obtain n1 where
    n1: "snd ?s1 = snd s @ n1" "attempts_made n1 = 1" "probe_events n1" by blast
  from Suc.IH[of "Suc a" ?s1] obtain n2 where
    n2: "snd (state_after api (Suc a) m j ?s1) = snd ?s1 @ n2" "attempts_made n2 = j"
        "probe_events n2" by blast
  show ?case
    by (rule exI[of _ "n1 @ n2"])
       (use n1 n2 in \<open>simp add: attempts_made_append probe_events_append\<close>)
qed

lemma probe_from_skip:
  "(\<forall>i<j. \<not> fst (probe_attempt api (a + i) m (state_after api a m i s))) \<Longrightarrow> a + j \<le> Suc m \<Longrightarrow>
     probe_from api a m s = probe_from api (a + j) m (state_after api a m j s)"
proof (induction j arbitrary: a s)
  case 0
  then show ?case by simp
next
  case (Suc j)
  let ?s1 = "snd (probe_attempt api a m s)"
  from Suc.prems(1) have f0: "\<not> fst (probe_attempt api a m s)" by force
  from Suc.prems(2) have am: "a \<le> m" by simp
  have step: "probe_from api a m s = probe_from api (Suc a) m ?s1"
    using f0 am by (subst probe_from.simps) (cases "probe_attempt api a m s", simp)
  have "\<forall>i<j. \<not> fst (probe_attempt api (Suc a + i) m (state_after api (Suc a) m i ?s1))"
  proof (intro allI impI)
    fix i assume "i < j"
    then have "Suc i < Suc j" by simp
    with Suc.prems(1) have "\<not> fst (probe_attempt api (a + Suc i) m (state_after api a m (Suc i) s))"
      by blast
    then show "\<not> fst (probe_attempt api (Suc a + i) m (state_after api (Suc a) m i ?s1))" by simp
  qed
  from Suc.IH[OF this] Suc.prems(2) step show ?case by simp
qed

lemma probe_all_fail:
  assumes "\<forall>k. 1 \<le> k \<and> k \<le> m \<longrightarrow> \<not> items_found api m k (fst s)"
  shows "waitForPageReady api m s = (Inl probe_failure, state_after api 1 m m s)"
proof -
  have "\<forall>i<m. \<not> fst (probe_attempt api (1 + i) m (state_after api 1 m i s))"
  proof (intro allI impI)
    fix i assume "i < m"
    then have "1 \<le> Suc i \<and> Suc i \<le> m" by simp
    with assms have "\<not> items_found api m (Suc i) (fst s)" by blast
    then show "\<not> fst (probe_attempt api (1 + i) m (state_after api 1 m i s))"
      by (simp add: items_found_code)
  qed
  then have "probe_from api 1 m s = probe_from api (1 + m) m (state_after api 1 m m s)"
    by (rule probe_from_skip) simp
  then show ?thesis
    by (subst (asm) (2) probe_from.simps) (simp add: waitForPageReady_def)
qed

lemma probe_first_success:
  assumes "1 \<le> k" "k \<le> m" "items_found api m k (fst s)"
    and "\<forall>j. 1 \<le> j \<and> j < k \<longrightarrow> \<not> items_found api m j (fst s)"
  shows "waitForPageReady api m s =
           (Inr True, snd (probe_attempt api k m (state_after api 1 m (k - 1) s)))"
proof -
  have "\<forall>i<k - 1. \<not> fst (probe_attempt api (1 + i) m (state_after api 1 m i s))"
  proof (intro allI impI)
    fix i assume "i < k - 1"
    then have "1 \<le> Suc i \<and> Suc i < k" by simp
    with assms(4) have "\<not> items_found api m (Suc i) (fst s)" by blast
    then show "\<not> fst (probe_attempt api (1 + i) m (state_after api 1 m i s))"
      by (simp add: items_found_code)
  qed
  then have "probe_from api 1 m s = probe_from api (1 + (k - 1)) m (state_after api 1 m (k - 1) s)"
    by (rule probe_from_skip) (use assms in simp)
  also have "1 + (k - 1) = k" using assms(1) by simp
  finally have "probe_from api 1 m s = probe_from api k m (state_after api 1 m (k - 1) s)" .
  moreover have "fst (probe_attempt api k m (state_after api 1 m (k - 1) s))"
    using assms(3) by (simp add: items_found_code)
  ultimately show ?thesis
    using assms(2)
    by (subst (asm) (2) probe_from.simps)
       (cases "probe_attempt api k m (state_after api 1 m (k - 1) s)", simp add: waitForPageReady_def)
qed

lemma ready_then_extract_failure:
  "fst (waitForPageReady api default_maxAttempts s) = Inl e \<Longrightarrow>
     ready_then_extract api node_env s = (Inl e, snd (waitForPageReady api default_maxAttempts s))"
  by (cases "waitForPageReady api default_maxAttempts s") (simp add: ready_then_extract_def sbind_def)

lemma paused_retries_append:
  "paused_retries xs \<Longrightarrow> paused_retries ys \<Longrightarrow> xs \<noteq> [] \<Longrightarrow> is_retry_pause (last xs) \<Longrightarrow>
     paused_retries (xs @ ys)"
proof (induction xs rule: paused_retries.induct)
  case 1
  then show ?case by simp
next
  case (2 x)
  then show ?case by (cases ys) simp_all
next
  case (3 x y rest)
  then show ?case by simp
qed

lemma attempt_calls_paused: "paused_retries (attempt_calls obs)"
  by (cases obs) (simp_all add: attempt_calls_def is_container_wait_def)

lemma attempt_calls_delay_paused: "paused_retries (attempt_calls obs @ [(Sleep d, True)])"
  by (cases obs) (simp_all add: attempt_calls_def is_container_wait_def)

lemma probe_from_beyond: "m < a \<Longrightarrow> probe_from api a m s = (Inl probe_failure, s)"
  by (subst probe_from.simps) simp

lemma probe_from_paused:
  "\<exists>new. snd (snd (probe_from api a m s)) = snd s @ new \<and> paused_retries new"
proof (induction api a m s rule: probe_from.induct)
  case (1 api a m s)
  show ?case
  proof (cases "a \<le> m")
    case False
    then show ?thesis by (simp add: probe_from_beyond)
  next
    case True
    obtain obs w where o: "observe api (fst s) = (obs, w)" by (cases "observe api (fst s)")
    obtain r s1 where p: "probe_attempt api a m s = (r, s1)" by (cases "probe_attempt api a m s")
    show ?thesis
    proof (cases r)
      case True
      with p o have "snd s1 = snd s @ attempt_calls obs"
        by (auto simp: probe_attempt_page retry_delay_def items_seen_def
            split: option.splits observation.splits if_splits)
      moreover have "probe_from api a m s = (Inr True, s1)"
        using \<open>a \<le> m\<close> p True by (subst probe_from.simps) simp
      ultimately show ?thesis using attempt_calls_paused by auto
    next
      case False
      then have rf: "r = False" by simp
      have eq: "probe_from api a m s = probe_from api (a + 1) m s1"
        using \<open>a \<le> m\<close> p rf by (subst probe_from.simps) simp
      from "1.IH"[OF \<open>a \<le> m\<close> p[symmetric] rf] obtain n2 where
        n2: "snd (snd (probe_from api (a + 1) m s1)) = snd s1 @ n2" "paused_retries n2" by blast
      show ?thesis
      proof (cases "retry_delay obs a m")
        case None
        with p o rf have l: "snd s1 = snd s @ attempt_calls obs" and am: "\<not> a < m"
          by (auto simp: probe_attempt_page retry_delay_def items_seen_def
              split: observation.splits if_splits)
        from am \<open>a \<le> m\<close> have "m < a + 1" by simp
        then have "probe_from api (a + 1) m s1 = (Inl probe_failure, s1)" by (rule probe_from_beyond)
        with eq l show ?thesis using attempt_calls_paused by auto
      next
        case (Some d)
        with p o have l: "snd s1 = snd s @ attempt_calls obs @ [(Sleep d, True)]"
          and d: "d = 2000 \<or> d = 3000"
          by (auto simp: probe_attempt_page retry_delay_def split: observation.splits if_splits)
        from d have lp: "is_retry_pause (last (attempt_calls obs @ [(Sleep d, True)]))"
          by (auto simp: is_retry_pause_def)
        have ne: "attempt_calls obs @ [(Sleep d, True)] \<noteq> []" by simp
        have "paused_retries ((attempt_calls obs @ [(Sleep d, True)]) @ n2)"
          by (rule paused_retries_append[OF attempt_calls_delay_paused n2(2) ne lp])
        with eq l n2(1) show ?thesis by auto
      qed
    qed
  qed
qed

lemma seen_no_delay: "items_seen obs \<Longrightarrow> retry_delay obs a m = None"
  by (cases obs) (simp_all add: items_seen_def retry_delay_def)

lemma found_attempt_world:
  assumes "fst (probe_attempt api a m s)"
  shows "fst (snd (probe_attempt api a m s)) = snd (observe api (fst s))"
proof -
  obtain obs w where o: "observe api (fst s) = (obs, w)" by (cases "observe api (fst s)")
  with assms have "items_seen obs" by (simp add: probe_attempt_page)
  then have "retry_delay obs a m = None" by (rule seen_no_delay)
  with o show ?thesis by (simp add: probe_attempt_page)
qed

text \<open>
  Claim C4. The default number of attempts is 3. One attempt waits for the container
  with 30000 ms, then for an item with 10000 ms, then reads the item count; it returns
  exactly when the count is read and is not zero; it is followed by a pause of 2000 ms
  when the count is zero, by a pause of 3000 ms when a wait or the reading fails and
  another attempt is left, and by no pause otherwise. A run of the probe makes at most
  \<open>maxAttempts\<close> attempts, every attempt but the first comes directly after one of these
  pauses whatever its number, and the page content is never read. When the page shows no
  item to any attempt up to the maximum the probe throws its error after exactly
  \<open>maxAttempts\<close> attempts, and in the handler the error ends the steps after the probe in
  the state the probe left, so nothing is extracted. When attempt \<open>k\<close> is the first to
  which the page shows items the probe returns \<open>true\<close> after exactly \<open>k\<close> attempts, in
  the state of the page observed by that attempt.
\<close>

theorem readiness_probe:
  "default_maxAttempts = 3 \<and>
   probe_attempt api a m s =
     (case observe api (fst s) of
        (obs, w) \<Rightarrow>
          (items_seen obs,
           (case retry_delay obs a m of
              None \<Rightarrow> (w, snd s @ attempt_calls obs)
            | Some d \<Rightarrow> (sleep api d w, snd s @ attempt_calls obs @ [(Sleep d, True)])))) \<and>
   (\<exists>new. snd (snd (waitForPageReady api m s)) = snd s @ new \<and>
      attempts_made new \<le> m \<and>
      set (selector_waits new) \<subseteq> {(''ol.ui-search-layout'', 30000), (''.ui-search-layout__item'', 10000)} \<and>
      set (pauses new) \<subseteq> {2000, 3000} \<and>
      paused_retries new \<and>
      (\<forall>b. (Content, b) \<notin> set new) \<and>
      ((\<forall>k. 1 \<le> k \<and> k \<le> m \<longrightarrow> \<not> items_found api m k (fst s)) \<longrightarrow>
         fst (waitForPageReady api m s) = Inl probe_failure \<and> attempts_made new = m \<and>
         fst (snd (waitForPageReady api m s)) = page_after api 1 m m (fst s)) \<and>
      (\<forall>k. 1 \<le> k \<and> k \<le> m \<and> items_found api m k (fst s) \<and>
           (\<forall>j. 1 \<le> j \<and> j < k \<longrightarrow> \<not> items_found api m j (fst s)) \<longrightarrow>
         fst (waitForPageReady api m s) = Inr True \<and> attempts_made new = k \<and>
         fst (snd (waitForPageReady api m s)) =
           snd (observe api (page_after api 1 m (k - 1) (fst s))))) \<and>
   (\<forall>e. fst (waitForPageReady api default_maxAttempts s) = Inl e \<longrightarrow>
      ready_then_extract api node_env s = (Inl e, snd (waitForPageReady api default_maxAttempts s)))"
proof -
  from probe_from_log[of api 1 m s] obtain new where
    new: "snd (snd (waitForPageReady api m s)) = snd s @ new" "attempts_made new \<le> m"
         "probe_events new"
    by (auto simp: waitForPageReady_def)
  from probe_from_paused[of api 1 m s] new(1) have pr: "paused_retries new"
    by (auto simp: waitForPageReady_def)
  have fail: "fst (waitForPageReady api m s) = Inl probe_failure \<and> attempts_made new = m \<and>
         fst (snd (waitForPageReady api m s)) = page_after api 1 m m (fst s)"
    if h: "\<forall>k. 1 \<le> k \<and> k \<le> m \<longrightarrow> \<not> items_found api m k (fst s)"
  proof -
    from probe_all_fail[OF h] have w: "waitForPageReady api m s = (Inl probe_failure, state_after api 1 m m s)" .
    from state_after_log[of api 1 m m s] obtain n where
      n: "snd (state_after api 1 m m s) = snd s @ n" "attempts_made n = m" by blast
    with w new(1) have "new = n" by simp
    with w n show ?thesis by (simp add: state_after_page)
  qed
  have succ: "fst (waitForPageReady api m s) = Inr True \<and> attempts_made new = k \<and>
         fst (snd (waitForPageReady api m s)) =
           snd (observe api (page_after api 1 m (k - 1) (fst s)))"
    if h: "1 \<le> k \<and> k \<le> m \<and> items_found api m k (fst s) \<and>
           (\<forall>j. 1 \<le> j \<and> j < k \<longrightarrow> \<not> items_found api m j (fst s))" for k
  proof -
    let ?sk = "state_after api 1 m (k - 1) s"
    from h probe_first_success[of k m api s]
    have w: "waitForPageReady api m s = (Inr True, snd (probe_attempt api k m ?sk))" by blast
    from state_after_log[of api 1 m "k - 1" s] obtain n1 where
      n1: "snd ?sk = snd s @ n1" "attempts_made n1 = k - 1" by blast
    from probe_attempt_log[of api k m ?sk] obtain n2 where
      n2: "snd (snd (probe_attempt api k m ?sk)) = snd ?sk @ n2" "attempts_made n2 = 1" by blast
    from w new(1) n1 n2 have "new = n1 @ n2" by simp
    moreover from h have "fst (probe_attempt api k m ?sk)" by (simp add: items_found_code)
    then have "fst (snd (probe_attempt api k m ?sk)) = snd (observe api (fst ?sk))"
      by (rule found_attempt_world)
    ultimately show ?thesis using w n1 n2 h by (simp add: attempts_made_append state_after_page)
  qed
  have ev: "set (selector_waits new) \<subseteq> {(''ol.ui-search-layout'', 30000), (''.ui-search-layout__item'', 10000)}"
    "set (pauses new) \<subseteq> {2000, 3000}" "\<forall>b. (Content, b) \<notin> set new"
    using new(3) by (simp_all add: probe_events_def resultsContainerSelector_def)
  have run: "\<exists>new. snd (snd (waitForPageReady api m s)) = snd s @ new \<and>
      attempts_made new \<le> m \<and>
      set (selector_waits new) \<subseteq> {(''ol.ui-search-layout'', 30000), (''.ui-search-layout__item'', 10000)} \<and>
      set (pauses new) \<subseteq> {2000, 3000} \<and>
      paused_retries new \<and>
      (\<forall>b. (Content, b) \<notin> set new) \<and>
      ((\<forall>k. 1 \<le> k \<and> k \<le> m \<longrightarrow> \<not> items_found api m k (fst s)) \<longrightarrow>
         fst (waitForPageReady api m s) = Inl probe_failure \<and> attempts_made new = m \<and>
         fst (snd (waitForPageReady api m s)) = page_after api 1 m m (fst s)) \<and>
      (\<forall>k. 1 \<le> k \<and> k \<le> m \<and> items_found api m k (fst s) \<and>
           (\<forall>j. 1 \<le> j \<and> j < k \<longrightarrow> \<not> items_found api m j (fst s)) \<longrightarrow>
         fst (waitForPageReady api m s) = Inr True \<and> attempts_made new = k \<and>
         fst (snd (waitForPageReady api m s)) =
           snd (observe api (page_after api 1 m (k - 1) (fst s))))"
    using new(1,2) ev pr fail succ by blast
  have d: "default_maxAttempts = 3" by (simp add: default_maxAttempts_def)
  have h: "\<forall>e. fst (waitForPageReady api default_maxAttempts s) = Inl e \<longrightarrow>
      ready_then_extract api node_env s = (Inl e, snd (waitForPageReady api default_maxAttempts s))"
    using ready_then_extract_failure[of api s _ node_env] by blast
  from d probe_attempt_page[of api a m s] run h show ?thesis by (intro conjI)
qed

lemmas sim_defs = sim_api_def sim_wait_def modal_page_def empty_page_def crowded_page_def no_browser_def
lemmas probe_defs = items_found_def observe_def items_seen_def retry_delay_def

lemma page_after_numeral:
  "page_after api a m (numeral k) w =
     page_after api (Suc a) m (pred_numeral k)
       (case observe api w of
          (obs, w1) \<Rightarrow> (case retry_delay obs a m of None \<Rightarrow> w1 | Some d \<Rightarrow> sleep api d w1))"
  by (simp add: numeral_eq_Suc)

theorem readiness_probe_witness:
  "fst (waitForPageReady sim_api 3 (modal_page, [])) = Inr True \<and>
   attempts_made (snd (snd (waitForPageReady sim_api 3 (modal_page, [])))) = 2 \<and>
   paused_retries (snd (snd (waitForPageReady sim_api 3 (modal_page, [])))) \<and>
   fst (waitForPageReady sim_api 3 (empty_page, [])) = Inl probe_failure \<and>
   attempts_made (snd (snd (waitForPageReady sim_api 3 (empty_page, [])))) = 3 \<and>
   paused_retries (snd (snd (waitForPageReady sim_api 3 (empty_page, [])))) \<and>
   fst (ready_then_extract sim_api None (empty_page, [])) = Inl probe_failure"
proof -
  have f1: "\<not> items_found sim_api 3 1 modal_page"
    by (simp add: probe_defs sim_defs)
  have f2: "items_found sim_api 3 2 modal_page"
    by (simp add: probe_defs sim_defs page_after_numeral)
  have first: "(1::nat) \<le> 2 \<and> (2::nat) \<le> 3 \<and> items_found sim_api 3 2 modal_page \<and>
      (\<forall>j. 1 \<le> j \<and> j < 2 \<longrightarrow> \<not> items_found sim_api 3 j modal_page)"
  proof -
    have "\<not> items_found sim_api 3 j modal_page" if "1 \<le> j \<and> j < 2" for j :: nat
    proof -
      from that have "j = 1" by simp
      with f1 show ?thesis by simp
    qed
    with f2 show ?thesis by simp
  qed
  have e1: "\<not> items_found sim_api 3 1 empty_page"
    by (simp add: probe_defs sim_defs)
  have e2: "\<not> items_found sim_api 3 2 empty_page"
    by (simp add: probe_defs sim_defs page_after_numeral)
  have e3: "\<not> items_found sim_api 3 3 empty_page"
    by (simp add: probe_defs sim_defs page_after_numeral)
  have none: "\<forall>k. 1 \<le> k \<and> k \<le> 3 \<longrightarrow> \<not> items_found sim_api 3 k empty_page"
  proof (intro allI impI)
    fix k :: nat assume "1 \<le> k \<and> k \<le> 3"
    then have "k = 1 \<or> k = 2 \<or> k = 3" by auto
    with e1 e2 e3 show "\<not> items_found sim_api 3 k empty_page" by auto
  qed
  let ?M = "\<lambda>new. snd (snd (waitForPageReady sim_api 3 (modal_page, []))) = [] @ new \<and>
      attempts_made new \<le> 3 \<and>
      set (selector_waits new) \<subseteq> {(''ol.ui-search-layout'', 30000), (''.ui-search-layout__item'', 10000)} \<and>
      set (pauses new) \<subseteq> {2000, 3000} \<and>
      paused_retries new \<and>
      (\<forall>b. (Content, b) \<notin> set new) \<and>
      ((\<forall>k. 1 \<le> k \<and> k \<le> 3 \<longrightarrow> \<not> items_found sim_api 3 k modal_page) \<longrightarrow>
         fst (waitForPageReady sim_api 3 (modal_page, [])) = Inl probe_failure \<and> attempts_made new = 3 \<and>
         fst (snd (waitForPageReady sim_api 3 (modal_page, []))) = page_after sim_api 1 3 3 modal_page) \<and>
      (\<forall>k. 1 \<le> k \<and> k \<le> 3 \<and> items_found sim_api 3 k modal_page \<and>
           (\<forall>j. 1 \<le> j \<and> j < k \<longrightarrow> \<not> items_found sim_api 3 j modal_page) \<longrightarrow>
         fst (waitForPageReady sim_api 3 (modal_page, [])) = Inr True \<and> attempts_made new = k \<and>
         fst (snd (waitForPageReady sim_api 3 (modal_page, []))) =
           snd (observe sim_api (page_after sim_api 1 3 (k - 1) modal_page)))"
  note t1 = readiness_probe[of sim_api 1 3 "(modal_page, [])" None, unfolded fst_conv snd_conv]
  have "\<exists>new. ?M new"
    by (rule t1[THEN conjunct2, THEN conjunct2, THEN conjunct1])
  then obtain n1 where b1: "?M n1" ..
  note n1 = b1[THEN conjunct1]
  note p1 = b1[THEN conjunct2, THEN conjunct2, THEN conjunct2, THEN conjunct2, THEN conjunct1]
  note s1 = b1[THEN conjunct2, THEN conjunct2, THEN conjunct2, THEN conjunct2, THEN conjunct2,
      THEN conjunct2, THEN conjunct2]
  from s1[rule_format, OF first]
  have "fst (waitForPageReady sim_api 3 (modal_page, [])) = Inr True \<and> attempts_made n1 = 2"
    by simp
  moreover from n1 have "n1 = snd (snd (waitForPageReady sim_api 3 (modal_page, [])))" by simp
  ultimately have a: "fst (waitForPageReady sim_api 3 (modal_page, [])) = Inr True \<and>
      attempts_made (snd (snd (waitForPageReady sim_api 3 (modal_page, [])))) = 2 \<and>
      paused_retries (snd (snd (waitForPageReady sim_api 3 (modal_page, []))))"
    using p1 by simp
  let ?E = "\<lambda>new. snd (snd (waitForPageReady sim_api 3 (empty_page, []))) = [] @ new \<and>
      attempts_made new \<le> 3 \<and>
      set (selector_waits new) \<subseteq> {(''ol.ui-search-layout'', 30000), (''.ui-search-layout__item'', 10000)} \<and>
      set (pauses new) \<subseteq> {2000, 3000} \<and>
      paused_retries new \<and>
      (\<forall>b. (Content, b) \<notin> set new) \<and>
      ((\<forall>k. 1 \<le> k \<and> k \<le> 3 \<longrightarrow> \<not> items_found sim_api 3 k empty_page) \<longrightarrow>
         fst (waitForPageReady sim_api 3 (empty_page, [])) = Inl probe_failure \<and> attempts_made new = 3 \<and>
         fst (snd (waitForPageReady sim_api 3 (empty_page, []))) = page_after sim_api 1 3 3 empty_page) \<and>
      (\<forall>k. 1 \<le> k \<and> k \<le> 3 \<and> items_found sim_api 3 k empty_page \<and>
           (\<forall>j. 1 \<le> j \<and> j < k \<longrightarrow> \<not> items_found sim_api 3 j empty_page) \<longrightarrow>
         fst (waitForPageReady sim_api 3 (empty_page, [])) = Inr True \<and> attempts_made new = k \<and>
         fst (snd (waitForPageReady sim_api 3 (empty_page, []))) =
           snd (observe sim_api (page_after sim_api 1 3 (k - 1) empty_page)))"
  note t2 = readiness_probe[of sim_api 1 3 "(empty_page, [])" None, unfolded fst_conv snd_conv]
  note r2 = t2[THEN conjunct2, THEN conjunct2, THEN conjunct2]
  have "\<exists>new. ?E new"
    by (rule t2[THEN conjunct2, THEN conjunct2, THEN conjunct1])
  then obtain n2 where b2: "?E n2" ..
  note n2 = b2[THEN conjunct1]
  note p2 = b2[THEN conjunct2, THEN conjunct2, THEN conjunct2, THEN conjunct2, THEN conjunct1]
  note s2 = b2[THEN conjunct2, THEN conjunct2, THEN conjunct2, THEN conjunct2, THEN conjunct2,
      THEN conjunct2, THEN conjunct1]
  from s2[THEN mp, OF none]
  have "fst (waitForPageReady sim_api 3 (empty_page, [])) = Inl probe_failure \<and> attempts_made n2 = 3"
    by simp
  moreover from n2 have "n2 = snd (snd (waitForPageReady sim_api 3 (empty_page, [])))" by simp
  ultimately have b: "fst (waitForPageReady sim_api 3 (empty_page, [])) = Inl probe_failure \<and>
      attempts_made (snd (snd (waitForPageReady sim_api 3 (empty_page, [])))) = 3 \<and>
      paused_retries (snd (snd (waitForPageReady sim_api 3 (empty_page, []))))"
    using p2 by simp
  have d: "default_maxAttempts = 3" by (simp add: default_maxAttempts_def)
  from r2 b have c: "fst (ready_then_extract sim_api None (empty_page, [])) = Inl probe_failure"
    unfolding d by simp
  from a b c show ?thesis by blast
qed

subsection \<open>The responses of the handler\<close>

lemma perform_ext: "\<exists>n. snd (snd (perform ev call s)) = snd s @ n"
  by (cases rule: perform_cases[of ev call s]) simp_all

lemma sbind_ext:
  assumes "\<And>s. \<exists>n. snd (snd (m s)) = snd s @ n" "\<And>a s. \<exists>n. snd (snd (f a s)) = snd s @ n"
  shows "\<exists>n. snd (snd (sbind m f s)) = snd s @ n"
proof -
  obtain r s1 where Pair: "m s = (r, s1)" by (cases "m s") auto
  from assms(1)[of s] Pair obtain n1 where n1: "snd s1 = snd s @ n1" by auto
  show ?thesis
  proof (cases r)
    case (Inl e)
    with Pair n1 show ?thesis by (simp add: sbind_def)
  next
    case (Inr a)
    from assms(2)[of a s1] obtain n2 where "snd (snd (f a s1)) = snd s1 @ n2" by blast
    with Pair Inr n1 show ?thesis by (simp add: sbind_def)
  qed
qed

lemma extract_stage_ext: "\<exists>n. snd (snd (extract_stage api node_env s)) = snd s @ n"
  unfolding extract_stage_def
  by (rule sbind_ext) (auto simp: Let_def intro!: perform_ext sbind_ext)

lemma handlePopups_ext: "\<exists>n. snd (snd (handlePopupsAndOverlays api s)) = snd s @ n"
  using handlePopups_log[of api s] by (cases "handlePopupsAndOverlays api s") auto

lemma waitForPageReady_ext: "\<exists>n. snd (snd (waitForPageReady api m s)) = snd s @ n"
  using probe_from_log[of api 1 m s] by (auto simp: waitForPageReady_def)

lemma ready_then_extract_ext: "\<exists>n. snd (snd (ready_then_extract api node_env s)) = snd s @ n"
  unfolding ready_then_extract_def
proof (rule sbind_ext)
  show "\<exists>n. snd (snd (waitForPageReady api default_maxAttempts s)) = snd s @ n" for s
    by (rule waitForPageReady_ext)
  show "\<exists>n. snd (snd (extract_stage api node_env
          (if node_env \<noteq> Some (js_of ''production'') then pause api 3000 s else s))) = snd s @ n" for a :: bool and s
    using extract_stage_ext[of api node_env "pause api 3000 s"] extract_stage_ext[of api node_env s]
    by (auto simp: snd_pause)
qed

lemma after_goto_ext:
  "\<exists>n. snd (snd (ready_then_extract api node_env
         (snd (handlePopupsAndOverlays api (pause api 2000 (snd (handlePopupsAndOverlays api s))))))) =
       snd s @ n"
proof -
  let ?s1 = "snd (handlePopupsAndOverlays api s)"
  let ?s2 = "pause api 2000 ?s1"
  let ?s3 = "snd (handlePopupsAndOverlays api ?s2)"
  from handlePopups_ext[of api s] obtain n1 where n1: "snd ?s1 = snd s @ n1" by blast
  from handlePopups_ext[of api ?s2] obtain n3 where n3: "snd ?s3 = snd ?s2 @ n3" by blast
  from ready_then_extract_ext[of api node_env ?s3] obtain n4 where
    n4: "snd (snd (ready_then_extract api node_env ?s3)) = snd ?s3 @ n4" by blast
  from n1 n3 n4 show ?thesis by (simp add: snd_pause)
qed

lemma with_browser_ext: "\<exists>n. snd (snd (with_browser api node_env q s)) = snd s @ n"
  unfolding with_browser_def
  by (intro sbind_ext perform_ext after_goto_ext)

lemma pipeline_launch_first:
  "\<exists>b rest. snd (snd (snd (search_pipeline api node_env q s))) = snd s @ (Launch, b) # rest"
proof (cases rule: perform_cases[of Launch "launch api" s])
  case (1 e w)
  then have "snd (snd (snd (search_pipeline api node_env q s))) = snd s @ (Launch, False) # []"
    by (simp add: search_pipeline_def)
  then show ?thesis by blast
next
  case (2 a w)
  let ?s1 = "(w, snd s @ [(Launch, True)])"
  from with_browser_ext[of api node_env q ?s1] obtain n where
    n: "snd (snd (with_browser api node_env q ?s1)) = snd ?s1 @ n" by blast
  obtain r s2 where wb: "with_browser api node_env q ?s1 = (r, s2)"
    by (cases "with_browser api node_env q ?s1") auto
  with 2 n have "snd (snd (snd (search_pipeline api node_env q s))) = snd s @ (Launch, True) # n"
    by (simp add: search_pipeline_def)
  then show ?thesis by blast
qed

lemma handler_launch_first:
  assumes "q \<noteq> []"
  shows "\<exists>b rest. snd (snd (search_handler api node_env (Some q) s)) = snd s @ (Launch, b) # rest"
proof -
  obtain r br s1 where p: "search_pipeline api node_env q s = (r, br, s1)"
    by (cases "search_pipeline api node_env q s")
  from pipeline_launch_first[of api node_env q s] p obtain b rest where
    l: "snd s1 = snd s @ (Launch, b) # rest" by auto
  from perform_ext[of BrowserClose "close api" s1] obtain n where
    n: "snd (snd (perform BrowserClose (close api) s1)) = snd s1 @ n" by blast
  show ?thesis
    using assms p l n by (cases br) (auto simp: search_handler_def truthy_def)
qed

text \<open>
  Claim C9. When \<open>q\<close> is missing or empty the handler answers 400 with the message that
  the parameter is required, and the session is left as it was: no call is logged, so no
  browser is launched. For any other query the answer is not 400 and the first call made
  is \<open>puppeteer.launch\<close>.
\<close>

theorem missing_query_rejected:
  "(query = None \<or> query = Some [] \<longrightarrow>
      search_handler api node_env query s =
        (\<lparr>status = 400, body = ErrorOnly (js_of ''Search query parameter \"q\" is required.'')\<rparr>, s)) \<and>
   (\<forall>q. query = Some q \<and> q \<noteq> [] \<longrightarrow>
      status (fst (search_handler api node_env query s)) \<noteq> 400 \<and>
      (\<exists>b rest. snd (snd (search_handler api node_env query s)) = snd s @ (Launch, b) # rest))"
proof -
  have a: "query = None \<or> query = Some [] \<longrightarrow>
      search_handler api node_env query s =
        (\<lparr>status = 400, body = ErrorOnly (js_of ''Search query parameter \"q\" is required.'')\<rparr>, s)"
    by (auto simp: search_handler_def truthy_def)
  have b: "status (fst (search_handler api node_env (Some q) s)) \<noteq> 400" if "q \<noteq> []" for q
    using that by (simp add: search_handler_def truthy_def split: prod.splits sum.splits)
  show ?thesis using a b handler_launch_first[of _ api node_env s] by blast
qed

theorem missing_query_rejected_witness:
  "search_handler sim_api None None (modal_page, []) =
     (\<lparr>status = 400, body = ErrorOnly (js_of ''Search query parameter \"q\" is required.'')\<rparr>,
      (modal_page, [])) \<and>
   search_handler sim_api None (Some []) (modal_page, []) =
     (\<lparr>status = 400, body = ErrorOnly (js_of ''Search query parameter \"q\" is required.'')\<rparr>,
      (modal_page, [])) \<and>
   status (fst (search_handler sim_api None (Some (js_of ''iPhone'')) (modal_page, []))) \<noteq> 400"
proof -
  have q: "js_of ''iPhone'' \<noteq> []" by (simp add: js_of_def)
  show ?thesis
    using missing_query_rejected[of None sim_api None "(modal_page, [])"]
      missing_query_rejected[of "Some []" sim_api None "(modal_page, [])"]
      missing_query_rejected[of "Some (js_of ''iPhone'')" sim_api None "(modal_page, [])"] q
    by blast
qed

lemma handler_failure_response:
  assumes "truthy query" "fst (search_pipeline api node_env (the query) s) = Inl e"
  shows "fst (search_handler api node_env query s) =
           \<lparr>status = 500,
            body = ErrorWithDetails (js_of ''An internal server error occurred during scraping.'')
              (if node_env = Some (js_of ''development'') then message e
               else js_of ''Check server logs'')\<rparr>"
proof -
  obtain r br s1 where p: "search_pipeline api node_env (the query) s = (r, br, s1)"
    by (cases "search_pipeline api node_env (the query) s")
  with assms show ?thesis by (simp add: search_handler_def)
qed

lemma handler_success_response:
  assumes "truthy query" "fst (search_pipeline api node_env (the query) s) = Inr ps"
  shows "fst (search_handler api node_env query s) = \<lparr>status = 200, body = ProductArray ps\<rparr>"
proof -
  obtain r br s1 where p: "search_pipeline api node_env (the query) s = (r, br, s1)"
    by (cases "search_pipeline api node_env (the query) s")
  with assms show ?thesis by (simp add: search_handler_def)
qed

text \<open>
  Claim C6, amended. When the pipeline fails the response is the internal-error object
  with status 500, whose details are the message of the error exactly when
  \<open>NODE_ENV\<close> is \<open>development\<close> and the fixed text \<open>Check server logs\<close> in every
  other environment; status 500 is sent in no other case.
\<close>

theorem failure_response_gated:
  "(truthy query \<and> fst (search_pipeline api node_env (the query) s) = Inl e \<longrightarrow>
      fst (search_handler api node_env query s) =
        \<lparr>status = 500,
         body = ErrorWithDetails (js_of ''An internal server error occurred during scraping.'')
           (if node_env = Some (js_of ''development'') then message e
            else js_of ''Check server logs'')\<rparr>) \<and>
   (status (fst (search_handler api node_env query s)) = 500 \<longleftrightarrow>
      truthy query \<and> (\<exists>e'. fst (search_pipeline api node_env (the query) s) = Inl e'))"
proof -
  have "status (fst (search_handler api node_env query s)) = 500 \<longleftrightarrow>
      truthy query \<and> (\<exists>e'. fst (search_pipeline api node_env (the query) s) = Inl e')"
  proof (cases "truthy query")
    case False
    then show ?thesis by (simp add: search_handler_def)
  next
    case True
    show ?thesis
    proof (cases "fst (search_pipeline api node_env (the query) s)")
      case (Inl e')
      with True handler_failure_response[OF True Inl] show ?thesis by simp
    next
      case (Inr ps)
      with True handler_success_response[OF True Inr] show ?thesis by simp
    qed
  qed
  then show ?thesis using handler_failure_response[of query api node_env s e] by blast
qed

lemma no_browser_pipeline:
  "fst (search_pipeline sim_api env (js_of ''iPhone'') (no_browser, [])) =
     Inl (JsError (js_of ''Failed to launch the browser process''))"
  by (simp add: search_pipeline_def perform_def sim_api_def no_browser_def)

theorem failure_response_gated_witness:
  "fst (search_handler sim_api (Some (js_of ''development'')) (Some (js_of ''iPhone'')) (no_browser, [])) =
     \<lparr>status = 500,
      body = ErrorWithDetails (js_of ''An internal server error occurred during scraping.'')
        (js_of ''Failed to launch the browser process'')\<rparr> \<and>
   fst (search_handler sim_api (Some (js_of ''production'')) (Some (js_of ''iPhone'')) (no_browser, [])) =
     \<lparr>status = 500,
      body = ErrorWithDetails (js_of ''An internal server error occurred during scraping.'')
        (js_of ''Check server logs'')\<rparr>"
proof -
  have t: "truthy (Some (js_of ''iPhone''))" by (simp add: truthy_def js_of_def)
  have ne: "Some (js_of ''production'') \<noteq> Some (js_of ''development'')" by (simp add: js_of_def)
  from failure_response_gated[of "Some (js_of ''iPhone'')" sim_api "Some (js_of ''development'')"
      "(no_browser, [])" "JsError (js_of ''Failed to launch the browser process'')"]
    t no_browser_pipeline[of "Some (js_of ''development'')"]
  have a: "fst (search_handler sim_api (Some (js_of ''development'')) (Some (js_of ''iPhone'')) (no_browser, [])) =
     \<lparr>status = 500,
      body = ErrorWithDetails (js_of ''An internal server error occurred during scraping.'')
        (js_of ''Failed to launch the browser process'')\<rparr>"
    by simp
  from failure_response_gated[of "Some (js_of ''iPhone'')" sim_api "Some (js_of ''production'')"
      "(no_browser, [])" "JsError (js_of ''Failed to launch the browser process'')"]
    t no_browser_pipeline[of "Some (js_of ''production'')"] ne
  have b: "fst (search_handler sim_api (Some (js_of ''production'')) (Some (js_of ''iPhone'')) (no_browser, [])) =
     \<lparr>status = 500,
      body = ErrorWithDetails (js_of ''An internal server error occurred during scraping.'')
        (js_of ''Check server logs'')\<rparr>"
    by simp
  from a b show ?thesis by blast
qed

text \<open>
  Claim C6 as stated fails: with \<open>NODE_ENV\<close> set to \<open>test\<close>, which is not production,
  a failed launch is answered with the fixed text and not with the message of the error.
\<close>

theorem verbose_details_counterexample:
  "Some (js_of ''test'') \<noteq> Some (js_of ''production'') \<and>
   fst (search_pipeline sim_api (Some (js_of ''test'')) (js_of ''iPhone'') (no_browser, [])) =
     Inl (JsError (js_of ''Failed to launch the browser process'')) \<and>
   fst (search_handler sim_api (Some (js_of ''test'')) (Some (js_of ''iPhone'')) (no_browser, [])) =
     \<lparr>status = 500,
      body = ErrorWithDetails (js_of ''An internal server error occurred during scraping.'')
        (js_of ''Check server logs'')\<rparr>"
  by (simp add: search_handler_def search_pipeline_def perform_def sim_api_def no_browser_def
      truthy_def js_of_def)

end
